theory Spec2Isabelle
  imports Complex_Main "HOL-Library.Word"
begin

section \<open>Plasma Cleaner: the moving bar and its timers\<close>

text \<open>
  The repository holds the program in two versions. \<^verbatim>\<open>plasmacleaner.c\<close> draws a white
  bar, builds its gradient for every new window width, increments the offset in the timer
  callback and wraps it when painting. The second file (\<^verbatim>\<open>unnamed/part_000\<close>) draws a
  tinted bar from one unit-width gradient built in \<^verbatim>\<open>main\<close>, wraps the offset in the
  timer callback and rescales it when the width changes. Both are embedded here; the
  definitions of the second file carry the suffix \<open>_p0\<close> where a name is shared.

  \<^verbatim>\<open>guint\<close> and \<^verbatim>\<open>gint\<close> are 32-bit words: \<open>+\<close> and \<open>*\<close> wrap, \<open>div\<close> and \<open>mod\<close>
  are the unsigned operations that C uses once an operand is \<^verbatim>\<open>guint\<close>, and \<open>sint\<close>
  reads an \<^verbatim>\<open>int\<close>. Pointers and GLib source ids are handles of type \<open>nat\<close>, with \<open>0\<close>
  for \<^verbatim>\<open>NULL\<close> and for "no source". A \<^verbatim>\<open>double\<close> is a real number: every value the
  program converts back to an integer is far enough from the next integer for the
  rounding of the division to change nothing, and the fractions of the colour stops that
  matter (0, 3/8, 1) are exact in binary. The tint \<open>0.9\<close> of the second file stands for
  the \<^verbatim>\<open>double\<close> nearest to it; nothing below depends on its value.
\<close>

type_synonym guint = "32 word"
type_synonym gint = "32 word"

datatype error = Assertion_failed | Division_by_zero | Undefined_conversion

subsection \<open>Constants\<close>

definition PERIOD_MS :: guint where
  "PERIOD_MS = 4000"

definition BAR_FRACTION :: real where
  "BAR_FRACTION = 3.0 / 8"

definition SCREENSAVER_SUPPRESSION_PERIOD_MS :: guint where
  "SCREENSAVER_SUPPRESSION_PERIOD_MS = 1000"

definition BAR_COLOUR_R :: real where
  "BAR_COLOUR_R = 0.9"

definition BAR_COLOUR_G :: real where
  "BAR_COLOUR_G = 0.9"

definition BAR_COLOUR_B :: real where
  "BAR_COLOUR_B = 1.0"

subsection \<open>The services of GLib, GTK, cairo and Xlib\<close>

text \<open>
  The world records what the program asked of its libraries: the timeout sources now
  attached to the main loop, every id given to \<^verbatim>\<open>g_source_remove\<close>, the cairo patterns
  now alive, every handle given to \<^verbatim>\<open>cairo_pattern_destroy\<close>, the redraws queued, the
  frames painted, the pointer warps sent, and whether \<^verbatim>\<open>gtk_main_quit\<close> was called.
  Ids and handles are handed out in increasing order from 1, so none is ever reused.
\<close>

datatype callback = On_draw_timer | On_screensaver_suppression_timer

datatype extend_t = EXTEND_PAD | EXTEND_REPEAT

type_synonym colour_stop = "real \<times> real \<times> real \<times> real"

record linear_pattern =
  x0 :: real
  y0 :: real
  x1 :: real
  y1 :: real
  stops :: "colour_stop list"
  extend_mode :: extend_t

record frame =
  translate_x :: real
  scale_x :: real
  source :: nat

record world =
  sources :: "(nat \<times> guint \<times> callback) list"
  source_count :: nat
  removed :: "nat list"
  patterns :: "(nat \<times> linear_pattern) list"
  pattern_count :: nat
  destroyed :: "nat list"
  queued_draws :: nat
  painted :: "frame list"
  warps :: nat
  xdisplay :: nat
  main_quit :: bool

text \<open>What the platform hands to \<^verbatim>\<open>main\<close>: the window of \<^verbatim>\<open>gtk_window_new\<close>, the
  cursor of \<^verbatim>\<open>gdk_cursor_new\<close> and the Xlib connection of the default display, each \<open>0\<close>
  when the platform has none.\<close>

record platform =
  new_window :: nat
  new_cursor :: nat
  default_xdisplay :: nat

definition initial_world :: "platform \<Rightarrow> world" where
  "initial_world pf =
     \<lparr>sources = [], source_count = 0, removed = [], patterns = [], pattern_count = 0,
      destroyed = [], queued_draws = 0, painted = [], warps = 0,
      xdisplay = default_xdisplay pf, main_quit = False\<rparr>"

definition g_timeout_add :: "guint \<Rightarrow> callback \<Rightarrow> world \<Rightarrow> nat \<times> world" where
  "g_timeout_add interval cb w =
     (let i = Suc (source_count w)
      in (i, w\<lparr>sources := sources w @ [(i, interval, cb)], source_count := i\<rparr>))"

definition g_source_remove :: "nat \<Rightarrow> world \<Rightarrow> world" where
  "g_source_remove i w =
     w\<lparr>sources := filter (\<lambda>s. fst s \<noteq> i) (sources w), removed := removed w @ [i]\<rparr>"

definition cairo_pattern_create_linear ::
    "real \<Rightarrow> real \<Rightarrow> real \<Rightarrow> real \<Rightarrow> world \<Rightarrow> nat \<times> world" where
  "cairo_pattern_create_linear a b c d w =
     (let p = Suc (pattern_count w)
      in (p, w\<lparr>patterns := patterns w @
                  [(p, \<lparr>x0 = a, y0 = b, x1 = c, y1 = d, stops = [], extend_mode = EXTEND_PAD\<rparr>)],
               pattern_count := p\<rparr>))"

text \<open>cairo keeps the stops sorted by offset; a new stop goes behind the stops whose
  offset is not larger than its own.\<close>

fun insert_stop :: "colour_stop \<Rightarrow> colour_stop list \<Rightarrow> colour_stop list" where
  "insert_stop s [] = [s]"
| "insert_stop s (t # ts) = (if fst s < fst t then s # t # ts else t # insert_stop s ts)"

definition update_pattern ::
    "nat \<Rightarrow> (linear_pattern \<Rightarrow> linear_pattern) \<Rightarrow> world \<Rightarrow> world" where
  "update_pattern p f w =
     w\<lparr>patterns := map (\<lambda>(q, v). if q = p then (q, f v) else (q, v)) (patterns w)\<rparr>"

definition cairo_pattern_add_color_stop_rgb ::
    "nat \<Rightarrow> real \<Rightarrow> real \<Rightarrow> real \<Rightarrow> real \<Rightarrow> world \<Rightarrow> world" where
  "cairo_pattern_add_color_stop_rgb p off r g b w =
     update_pattern p (\<lambda>v. v\<lparr>stops := insert_stop (off, r, g, b) (stops v)\<rparr>) w"

definition cairo_pattern_set_extend :: "nat \<Rightarrow> extend_t \<Rightarrow> world \<Rightarrow> world" where
  "cairo_pattern_set_extend p e w = update_pattern p (\<lambda>v. v\<lparr>extend_mode := e\<rparr>) w"

definition cairo_pattern_destroy :: "nat \<Rightarrow> world \<Rightarrow> world" where
  "cairo_pattern_destroy p w =
     w\<lparr>patterns := filter (\<lambda>s. fst s \<noteq> p) (patterns w), destroyed := destroyed w @ [p]\<rparr>"

definition gtk_widget_queue_draw :: "nat \<Rightarrow> world \<Rightarrow> world" where
  "gtk_widget_queue_draw win w = w\<lparr>queued_draws := Suc (queued_draws w)\<rparr>"

definition cairo_paint :: "real \<Rightarrow> real \<Rightarrow> nat \<Rightarrow> world \<Rightarrow> world" where
  "cairo_paint tx sx src w =
     w\<lparr>painted := painted w @ [\<lparr>translate_x = tx, scale_x = sx, source = src\<rparr>]\<rparr>"

definition XWarpPointer :: "world \<Rightarrow> world" where
  "XWarpPointer w = w\<lparr>warps := Suc (warps w)\<rparr>"

definition gtk_main_quit :: "world \<Rightarrow> world" where
  "gtk_main_quit w = w\<lparr>main_quit := True\<rparr>"

text \<open>A source whose callback returns \<^verbatim>\<open>FALSE\<close> is detached by the main loop itself.\<close>

definition detach :: "nat \<Rightarrow> world \<Rightarrow> world" where
  "detach i w = w\<lparr>sources := filter (\<lambda>s. fst s \<noteq> i) (sources w)\<rparr>"

text \<open>The events the main loop dispatches: a paint request carrying the value of
  \<^verbatim>\<open>gtk_widget_get_allocated_width\<close>, the expiry of the timeout source with a given id,
  a pointer button press and a key press.\<close>

datatype event = Draw gint | Timeout nat | Button_press | Key_press

text \<open>A process is inside \<^verbatim>\<open>gtk_main\<close>, with its data, the id of the suppression timer
  (a local of \<^verbatim>\<open>main\<close>) and the world, or it has returned from \<^verbatim>\<open>main\<close>.\<close>

datatype 'd process = Running 'd nat world | Exited int world

text \<open>Both files share the suppression callback word for word.\<close>

definition on_screensaver_suppression_timer :: "world \<Rightarrow> error + (bool \<times> world)" where
  "on_screensaver_suppression_timer w =
     (let display = xdisplay w
      in if display = 0 then Inl Assertion_failed else Inr (True, XWarpPointer w))"

subsection \<open>The second file: offset wrapped by the timer, rescaled on a width change\<close>

record data_t_p0 =
  window_p0 :: nat
  pattern_p0 :: nat
  draw_timeout_id_p0 :: nat
  draw_timeout_interval :: guint
  data_x_p0 :: guint
  width_p0 :: gint

definition free_draw_timeout :: "data_t_p0 \<Rightarrow> world \<Rightarrow> data_t_p0 \<times> world" where
  "free_draw_timeout d w =
     (if draw_timeout_id_p0 d \<noteq> 0
      then (d\<lparr>draw_timeout_id_p0 := 0\<rparr>, g_source_remove (draw_timeout_id_p0 d) w)
      else (d, w))"

definition on_draw_timer_p0 ::
    "data_t_p0 \<Rightarrow> world \<Rightarrow> error + (bool \<times> data_t_p0 \<times> world)" where
  "on_draw_timer_p0 d w =
     (if width_p0 d = 0 then Inl Assertion_failed
      else let d1 = d\<lparr>data_x_p0 := (data_x_p0 d + 1) mod width_p0 d\<rparr>
           in Inr (True, d1, gtk_widget_queue_draw (window_p0 d1) w))"

definition on_draw_p0 ::
    "gint \<Rightarrow> data_t_p0 \<Rightarrow> world \<Rightarrow> error + (bool \<times> data_t_p0 \<times> world)" where
  "on_draw_p0 width d w =
     (if width = 0 then Inl Assertion_failed
      else
        let interval = PERIOD_MS div width;
            (d1, w1) =
              (if draw_timeout_interval d \<noteq> interval
               then let (d', w') = free_draw_timeout d w;
                        (i, w'') = g_timeout_add interval On_draw_timer w'
                    in (d'\<lparr>draw_timeout_id_p0 := i, draw_timeout_interval := interval\<rparr>, w'')
               else (d, w));
            d2 =
              (if width_p0 d1 \<noteq> width
               then (if width_p0 d1 \<noteq> 0
                     then d1\<lparr>data_x_p0 := data_x_p0 d1 * width div width_p0 d1\<rparr>
                     else d1)\<lparr>width_p0 := width\<rparr>
               else d1)
        in Inr (True, d2,
                cairo_paint (real (unat (data_x_p0 d2))) (real_of_int (sint width))
                  (pattern_p0 d2) w1))"

definition on_destroy_p0 :: "data_t_p0 \<Rightarrow> world \<Rightarrow> data_t_p0 \<times> world" where
  "on_destroy_p0 d w = (let (d', w') = free_draw_timeout d w in (d', gtk_main_quit w'))"

text \<open>\<^verbatim>\<open>gtk_widget_destroy\<close> emits the "destroy" signal, which \<^verbatim>\<open>main\<close> connected to
  \<^verbatim>\<open>on_destroy\<close>.\<close>

definition on_button_or_key_press_p0 ::
    "data_t_p0 \<Rightarrow> world \<Rightarrow> bool \<times> data_t_p0 \<times> world" where
  "on_button_or_key_press_p0 d w = (let (d', w') = on_destroy_p0 d w in (True, d', w'))"

definition dispatch_p0 :: "event \<Rightarrow> data_t_p0 \<Rightarrow> world \<Rightarrow> error + (data_t_p0 \<times> world)" where
  "dispatch_p0 e d w =
     (case e of
        Draw width \<Rightarrow>
          (case on_draw_p0 width d w of Inl err \<Rightarrow> Inl err | Inr (_, d', w') \<Rightarrow> Inr (d', w'))
      | Timeout i \<Rightarrow>
          (case map_of (sources w) i of
             None \<Rightarrow> Inr (d, w)
           | Some (_, On_draw_timer) \<Rightarrow>
               (case on_draw_timer_p0 d w of
                  Inl err \<Rightarrow> Inl err
                | Inr (again, d', w') \<Rightarrow> Inr (d', if again then w' else detach i w'))
           | Some (_, On_screensaver_suppression_timer) \<Rightarrow>
               (case on_screensaver_suppression_timer w of
                  Inl err \<Rightarrow> Inl err
                | Inr (again, w') \<Rightarrow> Inr (d, if again then w' else detach i w')))
      | Button_press \<Rightarrow> (let (_, d', w') = on_button_or_key_press_p0 d w in Inr (d', w'))
      | Key_press \<Rightarrow> (let (_, d', w') = on_button_or_key_press_p0 d w in Inr (d', w')))"

text \<open>\<^verbatim>\<open>gtk_main\<close> dispatches events until a handler has called \<^verbatim>\<open>gtk_main_quit\<close>; a failed
  assertion ends the process at once.\<close>

fun gtk_main_p0 :: "event list \<Rightarrow> data_t_p0 \<Rightarrow> world \<Rightarrow> error + (data_t_p0 \<times> world)" where
  "gtk_main_p0 [] d w = Inr (d, w)"
| "gtk_main_p0 (e # es) d w =
     (case dispatch_p0 e d w of
        Inl err \<Rightarrow> Inl err
      | Inr (d', w') \<Rightarrow> if main_quit w' then Inr (d', w') else gtk_main_p0 es d' w')"

definition startup_p0 :: "platform \<Rightarrow> error + (data_t_p0 \<times> nat \<times> world)" where
  "startup_p0 pf =
     (let d = \<lparr>window_p0 = new_window pf, pattern_p0 = 0, draw_timeout_id_p0 = 0,
               draw_timeout_interval = 0, data_x_p0 = 0, width_p0 = 0\<rparr>
      in if window_p0 d = 0 then Inl Assertion_failed
         else if new_cursor pf = 0 then Inl Assertion_failed
         else
           let (p, w1) = cairo_pattern_create_linear 0.0 0.0 1.0 0.0 (initial_world pf);
               w2 = cairo_pattern_add_color_stop_rgb p 0.0
                      BAR_COLOUR_R BAR_COLOUR_G BAR_COLOUR_B w1;
               w3 = cairo_pattern_add_color_stop_rgb p BAR_FRACTION
                      BAR_COLOUR_R BAR_COLOUR_G BAR_COLOUR_B w2;
               w4 = cairo_pattern_add_color_stop_rgb p BAR_FRACTION 0.0 0.0 0.0 w3;
               w5 = cairo_pattern_add_color_stop_rgb p 1.0 0.0 0.0 0.0 w4;
               w6 = cairo_pattern_set_extend p EXTEND_REPEAT w5;
               (sid, w7) = g_timeout_add SCREENSAVER_SUPPRESSION_PERIOD_MS
                             On_screensaver_suppression_timer w6
           in Inr (d\<lparr>pattern_p0 := p\<rparr>, sid, w7))"

definition main_p0 :: "platform \<Rightarrow> event list \<Rightarrow> error + data_t_p0 process" where
  "main_p0 pf evs =
     (case startup_p0 pf of
        Inl err \<Rightarrow> Inl err
      | Inr (d, sid, w) \<Rightarrow>
          (case gtk_main_p0 evs d w of
             Inl err \<Rightarrow> Inl err
           | Inr (d', w') \<Rightarrow>
               if main_quit w'
               then Inr (Exited 0 (cairo_pattern_destroy (pattern_p0 d') (g_source_remove sid w')))
               else Inr (Running d' sid w')))"

subsection \<open>\<^verbatim>\<open>plasmacleaner.c\<close>: offset wrapped when painting, gradient built per width\<close>

record data_t =
  window :: nat
  pattern :: nat
  draw_timeout_id :: nat
  data_x :: guint
  last_width :: guint

definition free_draw_timeout_and_pattern :: "data_t \<Rightarrow> world \<Rightarrow> data_t \<times> world" where
  "free_draw_timeout_and_pattern d w =
     (let (d1, w1) =
            (if draw_timeout_id d \<noteq> 0
             then (d\<lparr>draw_timeout_id := 0\<rparr>, g_source_remove (draw_timeout_id d) w)
             else (d, w))
      in if pattern d1 \<noteq> 0
         then (d1\<lparr>pattern := 0\<rparr>, cairo_pattern_destroy (pattern d1) w1)
         else (d1, w1))"

definition on_draw_timer :: "data_t \<Rightarrow> world \<Rightarrow> bool \<times> data_t \<times> world" where
  "on_draw_timer d w =
     (let d1 = d\<lparr>data_x := data_x d + 1\<rparr>
      in (True, d1, gtk_widget_queue_draw (window d1) w))"

text \<open>Passing a \<^verbatim>\<open>double\<close> where \<^verbatim>\<open>g_timeout_add\<close> takes a \<^verbatim>\<open>guint\<close> truncates it towards
  zero; C leaves the conversion undefined when the truncated value is no \<^verbatim>\<open>guint\<close>.\<close>

definition double_to_guint :: "real \<Rightarrow> error + guint" where
  "double_to_guint r =
     (if - 1 < r \<and> r < 2 ^ 32
      then Inr (word_of_int (if 0 \<le> r then \<lfloor>r\<rfloor> else \<lceil>r\<rceil>))
      else Inl Undefined_conversion)"

text \<open>\<^verbatim>\<open>PERIOD_MS / (double)width\<close>; the quotient by zero is infinite and converts to no
  \<^verbatim>\<open>guint\<close>.\<close>

definition timeout_interval :: "gint \<Rightarrow> error + guint" where
  "timeout_interval width =
     (if width = 0 then Inl Undefined_conversion
      else double_to_guint (real (unat PERIOD_MS) / real_of_int (sint width)))"

definition on_draw :: "gint \<Rightarrow> data_t \<Rightarrow> world \<Rightarrow> error + (bool \<times> data_t \<times> world)" where
  "on_draw width d w =
     (case (if last_width d \<noteq> width
            then let (d1, w1) = free_draw_timeout_and_pattern d w
                 in (case timeout_interval width of
                       Inl err \<Rightarrow> Inl err
                     | Inr interval \<Rightarrow>
                         let (i, w2) = g_timeout_add interval On_draw_timer w1;
                             d2 = d1\<lparr>draw_timeout_id := i\<rparr>;
                             (p, w3) = cairo_pattern_create_linear 0 0
                                         (real_of_int (sint width)) 0 w2;
                             w4 = cairo_pattern_add_color_stop_rgb p 0.0 1.0 1.0 1.0 w3;
                             w5 = cairo_pattern_add_color_stop_rgb p BAR_FRACTION 1.0 1.0 1.0 w4;
                             w6 = cairo_pattern_add_color_stop_rgb p BAR_FRACTION 0.0 0.0 0.0 w5;
                             w7 = cairo_pattern_add_color_stop_rgb p 1.0 0.0 0.0 0.0 w6;
                             w8 = cairo_pattern_set_extend p EXTEND_REPEAT w7
                         in Inr (d2\<lparr>pattern := p\<rparr>, w8))
            else Inr (d, w)) of
        Inl err \<Rightarrow> Inl err
      | Inr (d3, w9) \<Rightarrow>
          let d4 = d3\<lparr>last_width := width\<rparr>
          in if width = 0 then Inl Division_by_zero
             else let d5 = d4\<lparr>data_x := data_x d4 mod width\<rparr>
                  in Inr (True, d5,
                          cairo_paint (real (unat (data_x d5))) 1 (pattern d5) w9))"

definition on_destroy :: "data_t \<Rightarrow> world \<Rightarrow> data_t \<times> world" where
  "on_destroy d w =
     (let (d', w') = free_draw_timeout_and_pattern d w in (d', gtk_main_quit w'))"

definition on_button_or_key_press :: "data_t \<Rightarrow> world \<Rightarrow> bool \<times> data_t \<times> world" where
  "on_button_or_key_press d w = (let (d', w') = on_destroy d w in (True, d', w'))"

definition dispatch :: "event \<Rightarrow> data_t \<Rightarrow> world \<Rightarrow> error + (data_t \<times> world)" where
  "dispatch e d w =
     (case e of
        Draw width \<Rightarrow>
          (case on_draw width d w of Inl err \<Rightarrow> Inl err | Inr (_, d', w') \<Rightarrow> Inr (d', w'))
      | Timeout i \<Rightarrow>
          (case map_of (sources w) i of
             None \<Rightarrow> Inr (d, w)
           | Some (_, On_draw_timer) \<Rightarrow>
               (let (again, d', w') = on_draw_timer d w
                in Inr (d', if again then w' else detach i w'))
           | Some (_, On_screensaver_suppression_timer) \<Rightarrow>
               (case on_screensaver_suppression_timer w of
                  Inl err \<Rightarrow> Inl err
                | Inr (again, w') \<Rightarrow> Inr (d, if again then w' else detach i w')))
      | Button_press \<Rightarrow> (let (_, d', w') = on_button_or_key_press d w in Inr (d', w'))
      | Key_press \<Rightarrow> (let (_, d', w') = on_button_or_key_press d w in Inr (d', w')))"

fun gtk_main :: "event list \<Rightarrow> data_t \<Rightarrow> world \<Rightarrow> error + (data_t \<times> world)" where
  "gtk_main [] d w = Inr (d, w)"
| "gtk_main (e # es) d w =
     (case dispatch e d w of
        Inl err \<Rightarrow> Inl err
      | Inr (d', w') \<Rightarrow> if main_quit w' then Inr (d', w') else gtk_main es d' w')"

definition startup :: "platform \<Rightarrow> error + (data_t \<times> nat \<times> world)" where
  "startup pf =
     (let d = \<lparr>window = new_window pf, pattern = 0, draw_timeout_id = 0, data_x = 0,
               last_width = 0\<rparr>
      in if window d = 0 then Inl Assertion_failed
         else if new_cursor pf = 0 then Inl Assertion_failed
         else
           let (sid, w1) = g_timeout_add SCREENSAVER_SUPPRESSION_PERIOD_MS
                             On_screensaver_suppression_timer (initial_world pf)
           in Inr (d, sid, w1))"

definition main :: "platform \<Rightarrow> event list \<Rightarrow> error + data_t process" where
  "main pf evs =
     (case startup pf of
        Inl err \<Rightarrow> Inl err
      | Inr (d, sid, w) \<Rightarrow>
          (case gtk_main evs d w of
             Inl err \<Rightarrow> Inl err
           | Inr (d', w') \<Rightarrow>
               if main_quit w'
               then Inr (Exited 0 (g_source_remove sid w'))
               else Inr (Running d' sid w')))"

subsection \<open>Runs of the repaint timer\<close>

text \<open>\<open>n\<close> expiries of the repaint timer in a row. In the second file the callback wraps
  the offset itself. In \<^verbatim>\<open>plasmacleaner.c\<close> the callback increments and queues a redraw, and
  the paint handler that follows wraps; one step is the callback and the paint it asked
  for, at the width the window has.\<close>

fun fire_p0 :: "nat \<Rightarrow> data_t_p0 \<Rightarrow> world \<Rightarrow> error + (data_t_p0 \<times> world)" where
  "fire_p0 0 d w = Inr (d, w)"
| "fire_p0 (Suc n) d w =
     (case on_draw_timer_p0 d w of Inl err \<Rightarrow> Inl err | Inr (_, d', w') \<Rightarrow> fire_p0 n d' w')"

definition offset_after_p0 :: "nat \<Rightarrow> data_t_p0 \<Rightarrow> world \<Rightarrow> guint option" where
  "offset_after_p0 n d w =
     (case fire_p0 n d w of Inl _ \<Rightarrow> None | Inr (d', _) \<Rightarrow> Some (data_x_p0 d'))"

fun fire :: "nat \<Rightarrow> gint \<Rightarrow> data_t \<Rightarrow> world \<Rightarrow> error + (data_t \<times> world)" where
  "fire 0 width d w = Inr (d, w)"
| "fire (Suc n) width d w =
     (let (_, d1, w1) = on_draw_timer d w
      in case on_draw width d1 w1 of
           Inl err \<Rightarrow> Inl err
         | Inr (_, d2, w2) \<Rightarrow> fire n width d2 w2)"

definition offset_after :: "nat \<Rightarrow> gint \<Rightarrow> data_t \<Rightarrow> world \<Rightarrow> guint option" where
  "offset_after n width d w =
     (case fire n width d w of Inl _ \<Rightarrow> None | Inr (d', _) \<Rightarrow> Some (data_x d'))"

subsection \<open>A platform to run on\<close>

text \<open>An X11 platform on which window, cursor and display all exist, and the same
  platform without an X display, as under another GDK backend.\<close>

definition x11_platform :: platform where
  "x11_platform = \<lparr>new_window = 1, new_cursor = 1, default_xdisplay = 1\<rparr>"

definition no_x11_platform :: platform where
  "no_x11_platform = \<lparr>new_window = 1, new_cursor = 1, default_xdisplay = 0\<rparr>"

fun world_of :: "'d process \<Rightarrow> world" where
  "world_of (Running d sid w) = w"
| "world_of (Exited c w) = w"

fun data_of :: "'d process \<Rightarrow> 'd option" where
  "data_of (Running d sid w) = Some d"
| "data_of (Exited c w) = None"

subsection \<open>What holds between two events\<close>

text \<open>
  The shape of the data and of the world whenever the main loop waits for the next event.
  In \<^verbatim>\<open>plasmacleaner.c\<close>: the suppression timer is attached; the repaint timer is attached
  exactly when \<^verbatim>\<open>draw_timeout_id\<close> is not 0, with the interval computed from the stored
  width; the one live pattern, if any, is the gradient built for the stored width; no id
  or handle was released twice, and none that was released is still in use.
\<close>

definition inv :: "data_t \<Rightarrow> nat \<Rightarrow> world \<Rightarrow> bool" where
  "inv d sid w \<longleftrightarrow>
     0 < sid \<and> sid \<le> source_count w \<and>
     draw_timeout_id d \<le> source_count w \<and> draw_timeout_id d \<noteq> sid \<and>
     sources w =
       (sid, SCREENSAVER_SUPPRESSION_PERIOD_MS, On_screensaver_suppression_timer) #
       (if draw_timeout_id d = 0 then []
        else [(draw_timeout_id d,
               (case timeout_interval (last_width d) of Inl _ \<Rightarrow> 0 | Inr interval \<Rightarrow> interval),
               On_draw_timer)]) \<and>
     distinct (removed w) \<and>
     (\<forall>i \<in> set (removed w).
        0 < i \<and> i \<le> source_count w \<and> i \<noteq> sid \<and> i \<noteq> draw_timeout_id d) \<and>
     pattern d \<le> pattern_count w \<and>
     patterns w =
       (if pattern d = 0 then []
        else [(pattern d,
               \<lparr>x0 = 0, y0 = 0, x1 = real_of_int (sint (last_width d)), y1 = 0,
                stops = [(0, 1, 1, 1), (3 / 8, 1, 1, 1), (3 / 8, 0, 0, 0), (1, 0, 0, 0)],
                extend_mode = EXTEND_REPEAT\<rparr>)]) \<and>
     distinct (destroyed w) \<and>
     (\<forall>p \<in> set (destroyed w). 0 < p \<and> p \<le> pattern_count w \<and> p \<noteq> pattern d) \<and>
     \<not> main_quit w \<and>
     (if last_width d = 0
      then draw_timeout_id d = 0 \<and> pattern d = 0 \<and> data_x d = 0
      else draw_timeout_id d \<noteq> 0 \<and> pattern d \<noteq> 0)"

text \<open>
  In the second file: the same for the timers, with the stored interval; the pattern of
  \<^verbatim>\<open>main\<close> is alive and untouched; once a width is stored, the offset is below it and
  the stored interval is the quotient for that width; before that, everything is 0.
\<close>

definition inv_p0 :: "data_t_p0 \<Rightarrow> nat \<Rightarrow> world \<Rightarrow> bool" where
  "inv_p0 d sid w \<longleftrightarrow>
     0 < sid \<and> sid \<le> source_count w \<and>
     draw_timeout_id_p0 d \<le> source_count w \<and> draw_timeout_id_p0 d \<noteq> sid \<and>
     sources w =
       (sid, SCREENSAVER_SUPPRESSION_PERIOD_MS, On_screensaver_suppression_timer) #
       (if draw_timeout_id_p0 d = 0 then []
        else [(draw_timeout_id_p0 d, draw_timeout_interval d, On_draw_timer)]) \<and>
     distinct (removed w) \<and>
     (\<forall>i \<in> set (removed w).
        0 < i \<and> i \<le> source_count w \<and> i \<noteq> sid \<and> i \<noteq> draw_timeout_id_p0 d) \<and>
     pattern_p0 d \<noteq> 0 \<and> pattern_p0 d \<le> pattern_count w \<and>
     patterns w =
       [(pattern_p0 d,
         \<lparr>x0 = 0, y0 = 0, x1 = 1, y1 = 0,
          stops = [(0, 9 / 10, 9 / 10, 1), (3 / 8, 9 / 10, 9 / 10, 1),
                   (3 / 8, 0, 0, 0), (1, 0, 0, 0)],
          extend_mode = EXTEND_REPEAT\<rparr>)] \<and>
     destroyed w = [] \<and>
     \<not> main_quit w \<and>
     (if width_p0 d = 0
      then draw_timeout_id_p0 d = 0 \<and> draw_timeout_interval d = 0 \<and> data_x_p0 d = 0
      else data_x_p0 d < width_p0 d \<and> draw_timeout_interval d = PERIOD_MS div width_p0 d)"

section \<open>Properties\<close>

subsection \<open>The increment-and-wrap step\<close>

lemma sint_pos_uint:
  fixes W :: "32 word"
  assumes "0 < sint W"
  shows "uint W = sint W" 
proof -
  have "sint W < 2 ^ (32 - 1)" using sint_lt [of W] by simp
  then have "sint W < 2 ^ 32" by simp
  with assms have "take_bit 32 (sint W) = sint W"
    by (simp add: take_bit_int_eq_self)
  then show ?thesis using uint_sint [of W] by simp
qed

lemma sint_pos_unat:
  fixes W :: "32 word"
  assumes "0 < sint W"
  shows "int (unat W) = sint W"
  using sint_pos_uint [OF assms] by simp

lemma sint_pos_nonzero:
  fixes W :: "32 word"
  assumes "0 < sint W"
  shows "W \<noteq> 0"
  using assms by auto

lemma mod_shift_eq_iff:
  fixes a :: nat
  shows "(a + i) mod q = (a + j) mod q \<longleftrightarrow> i mod q = j mod q"
proof (cases "i \<le> j")
  case True
  then show ?thesis
    using mod_eq_dvd_iff_nat [of "a + i" "a + j" q] mod_eq_dvd_iff_nat [of i j q]
    by (auto simp: eq_commute)
next
  case False
  then have "j \<le> i" by simp
  then show ?thesis
    using mod_eq_dvd_iff_nat [of "a + j" "a + i" q] mod_eq_dvd_iff_nat [of j i q]
    by (auto simp: eq_commute)
qed

lemma mod_shift_onto:
  fixes a :: nat
  assumes "y < q"
  shows "\<exists>k<q. (a + k) mod q = y"
proof -
  let ?k = "(y + (q - a mod q)) mod q"
  have q0: "0 < q" using assms by simp
  have "(a + ?k) mod q = (a mod q + (y + (q - a mod q))) mod q"
    by (simp add: mod_add_eq mod_add_right_eq mod_add_left_eq)
  also have "a mod q + (y + (q - a mod q)) = y + q"
    using mod_less_divisor [OF q0, of a] by simp
  also have "(y + q) mod q = y" using assms by simp
  finally have "(a + ?k) mod q = y" .
  moreover have "?k < q" using q0 by simp
  ultimately show ?thesis by blast
qed

lemma wrap_step_less:
  fixes W :: "32 word"
  assumes "W \<noteq> 0"
  shows "(x + 1) mod W < W"
  using assms by (simp add: word_less_nat_alt unat_mod unat_gt_0)

lemma wrap_step_unat:
  fixes W :: "32 word"
  assumes "x < W"
  shows "unat ((x + 1) mod W) = Suc (unat x) mod unat W"
proof -
  have "1 + x \<noteq> 0"
    using assms
    by (metis add_left_cancel add_neg_numeral_special(7)
        ordering_top.extremum_strict word_order.ordering_top_axioms)
  then have "unat (1 + x) = Suc (unat x)" by (rule unatSuc)
  then show ?thesis by (simp add: unat_mod add.commute)
qed

lemma wrap_iter_unat:
  fixes W :: "32 word"
  assumes "x < W"
  shows "((\<lambda>y. (y + 1) mod W) ^^ n) x < W \<and>
         unat (((\<lambda>y. (y + 1) mod W) ^^ n) x) = (unat x + n) mod unat W"
proof (induction n)
  case 0
  then show ?case using assms by (simp add: word_less_nat_alt)
next
  case (Suc n)
  let ?z = "((\<lambda>y. (y + 1) mod W) ^^ n) x"
  from Suc have lt: "?z < W" and eq: "unat ?z = (unat x + n) mod unat W" by simp_all
  have W0: "W \<noteq> 0" using assms by auto
  have "unat ((?z + 1) mod W) = Suc (unat ?z) mod unat W" by (rule wrap_step_unat [OF lt])
  also have "\<dots> = (unat x + Suc n) mod unat W" by (simp add: eq mod_Suc_eq)
  finally have "unat ((?z + 1) mod W) = (unat x + Suc n) mod unat W" .
  moreover have "(?z + 1) mod W < W" by (rule wrap_step_less [OF W0])
  ultimately show ?case by simp
qed

lemma wrap_iter_Suc:
  fixes W :: "32 word"
  assumes "W \<noteq> 0"
  shows "((\<lambda>y. (y + 1) mod W) ^^ Suc k) x < W \<and>
         unat (((\<lambda>y. (y + 1) mod W) ^^ Suc k) x) = (unat ((x + 1) mod W) + k) mod unat W"
proof -
  have "((\<lambda>y. (y + 1) mod W) ^^ Suc k) x = ((\<lambda>y. (y + 1) mod W) ^^ k) ((x + 1) mod W)"
    by (simp only: funpow_Suc_right o_apply)
  then show ?thesis
    using wrap_iter_unat [OF wrap_step_less [OF assms, of x], of k] by (simp del: funpow.simps)
qed

lemma wrap_cycle_range:
  fixes W :: "32 word"
  assumes "W \<noteq> 0" and "1 \<le> n"
  shows "((\<lambda>y. (y + 1) mod W) ^^ n) x < W"
proof -
  from assms(2) obtain k where "n = Suc k" by (cases n) auto
  then show ?thesis using wrap_iter_Suc [OF assms(1), of k x] by simp
qed

lemma wrap_cycle_period:
  fixes W :: "32 word"
  assumes "W \<noteq> 0" and "1 \<le> n" and "1 \<le> m"
  shows "((\<lambda>y. (y + 1) mod W) ^^ n) x = ((\<lambda>y. (y + 1) mod W) ^^ m) x
           \<longleftrightarrow> n mod unat W = m mod unat W"
proof -
  from assms(2) obtain i where n: "n = Suc i" by (cases n) auto
  from assms(3) obtain j where m: "m = Suc j" by (cases m) auto
  let ?a = "unat ((x + 1) mod W)"
  have "((\<lambda>y. (y + 1) mod W) ^^ n) x = ((\<lambda>y. (y + 1) mod W) ^^ m) x
          \<longleftrightarrow> (?a + i) mod unat W = (?a + j) mod unat W"
    using wrap_iter_Suc [OF assms(1), of i x] wrap_iter_Suc [OF assms(1), of j x]
    by (simp only: n m word_unat_eq_iff)
  also have "\<dots> \<longleftrightarrow> i mod unat W = j mod unat W" by (rule mod_shift_eq_iff)
  also have "\<dots> \<longleftrightarrow> (1 + i) mod unat W = (1 + j) mod unat W"
    by (rule mod_shift_eq_iff [symmetric])
  finally show ?thesis by (simp add: n m)
qed

lemma wrap_cycle_onto:
  fixes W :: "32 word"
  assumes "y < W"
  shows "\<exists>n. 1 \<le> n \<and> n \<le> unat W \<and> ((\<lambda>y. (y + 1) mod W) ^^ n) x = y"
proof -
  have W0: "W \<noteq> 0" using assms by auto
  have "unat y < unat W" using assms by (simp add: word_less_nat_alt)
  then obtain k where k: "k < unat W" "(unat ((x + 1) mod W) + k) mod unat W = unat y"
    using mod_shift_onto by blast
  have "((\<lambda>y. (y + 1) mod W) ^^ Suc k) x = y"
    using wrap_iter_Suc [OF W0, of k x] k(2) by (simp only: word_unat_eq_iff)
  with k(1) show ?thesis by (intro exI [of _ "Suc k"]) simp
qed

lemma wrap_cycle_return:
  fixes W :: "32 word"
  assumes "x < W"
  shows "((\<lambda>y. (y + 1) mod W) ^^ unat W) x = x"
proof -
  have "unat x < unat W" using assms by (simp add: word_less_nat_alt)
  then have "unat (((\<lambda>y. (y + 1) mod W) ^^ unat W) x) = unat x"
    using wrap_iter_unat [OF assms, of "unat W"] by simp
  then show ?thesis by (simp only: word_unat_eq_iff)
qed

lemma fire_p0_iter:
  assumes "width_p0 d \<noteq> 0"
  shows "\<exists>w'. fire_p0 n d w =
           Inr (d\<lparr>data_x_p0 := ((\<lambda>y. (y + 1) mod width_p0 d) ^^ n) (data_x_p0 d)\<rparr>, w')"
  using assms
proof (induction n arbitrary: d w)
  case 0
  then show ?case by simp
next
  case (Suc n)
  let ?d = "d\<lparr>data_x_p0 := (data_x_p0 d + 1) mod width_p0 d\<rparr>"
  have "width_p0 ?d \<noteq> 0" using Suc.prems by simp
  from Suc.IH [OF this, of "gtk_widget_queue_draw (window_p0 ?d) w"]
  show ?case using Suc.prems
    by (simp add: on_draw_timer_p0_def Let_def funpow_Suc_right del: funpow.simps)
qed

lemma offset_after_p0_iter:
  assumes "width_p0 d \<noteq> 0"
  shows "offset_after_p0 n d w = Some (((\<lambda>y. (y + 1) mod width_p0 d) ^^ n) (data_x_p0 d))"
  using fire_p0_iter [OF assms, of n w] by (auto simp: offset_after_p0_def)

lemma on_draw_same_width:
  assumes "last_width d = width" and "width \<noteq> 0"
  shows "on_draw width d w =
           Inr (True, d\<lparr>data_x := data_x d mod width\<rparr>,
                cairo_paint (real (unat (data_x d mod width))) 1 (pattern d) w)"
  using assms by (simp add: on_draw_def Let_def)

lemma fire_iter:
  assumes "last_width d = width" and "width \<noteq> 0"
  shows "\<exists>w'. fire n width d w =
           Inr (d\<lparr>data_x := ((\<lambda>y. (y + 1) mod width) ^^ n) (data_x d)\<rparr>, w')"
  using assms
proof (induction n arbitrary: d w)
  case 0
  then show ?case by simp
next
  case (Suc n)
  let ?d = "d\<lparr>data_x := (data_x d + 1) mod width\<rparr>"
  have "last_width ?d = width" using Suc.prems by simp
  from Suc.IH [OF this Suc.prems(2)]
  show ?case using Suc.prems
    by (simp add: on_draw_timer_def on_draw_same_width Let_def funpow_Suc_right
        del: funpow.simps)
qed

lemma offset_after_iter:
  assumes "last_width d = width" and "width \<noteq> 0"
  shows "offset_after n width d w = Some (((\<lambda>y. (y + 1) mod width) ^^ n) (data_x d))"
  using fire_iter [OF assms, of n w] by (auto simp: offset_after_def)


lemma wrap_cycle_all:
  fixes W :: "32 word"
  assumes "0 < sint W" and eq: "\<And>n. f n = Some (((\<lambda>y. (y + 1) mod W) ^^ n) x)"
  shows "(\<forall>n\<ge>1. \<exists>y. f n = Some y \<and> uint y < sint W) \<and>
         (\<forall>n\<ge>1. \<forall>m\<ge>1. f n = f m \<longleftrightarrow> n mod unat W = m mod unat W) \<and>
         (\<forall>y. uint y < sint W \<longrightarrow> (\<exists>n. 1 \<le> n \<and> n \<le> unat W \<and> f n = Some y)) \<and>
         (x < W \<longrightarrow> f (unat W) = Some x)"
proof -
  have W0: "W \<noteq> 0" by (rule sint_pos_nonzero [OF assms(1)])
  have less: "uint y < sint W \<longleftrightarrow> y < W" for y
    by (simp add: sint_pos_uint [OF assms(1), symmetric] word_less_def)
  have a: "\<forall>n\<ge>1. \<exists>y. f n = Some y \<and> uint y < sint W"
    using wrap_cycle_range [OF W0] by (simp add: eq less del: funpow.simps)
  have b: "\<forall>n\<ge>1. \<forall>m\<ge>1. f n = f m \<longleftrightarrow> n mod unat W = m mod unat W"
    using wrap_cycle_period [OF W0] by (simp add: eq del: funpow.simps)
  have c: "\<forall>y. uint y < sint W \<longrightarrow> (\<exists>n. 1 \<le> n \<and> n \<le> unat W \<and> f n = Some y)"
    using wrap_cycle_onto by (simp add: eq less del: funpow.simps)
  have d: "x < W \<longrightarrow> f (unat W) = Some x"
    using wrap_cycle_return by (simp add: eq del: funpow.simps)
  from a b c d show ?thesis by (intro conjI)
qed

text \<open>
  C1. For every width \<open>W > 0\<close> and every start offset, the offsets that repeated
  increment-and-wrap steps produce stay in \<open>[0, W)\<close>, two of them are equal exactly
  when their step counts are congruent modulo \<open>W\<close> (so \<open>W\<close> steps in a row give \<open>W\<close>
  different offsets and the period is exactly \<open>W\<close>), every value of \<open>[0, W)\<close> is reached
  within \<open>W\<close> steps, and an offset that starts inside \<open>[0, W)\<close> is back at its start after
  \<open>W\<close> steps. This holds for the timer callback of the second file and for the callback
  followed by the paint in \<^verbatim>\<open>plasmacleaner.c\<close>.
\<close>

theorem increment_and_wrap_cycles:
  assumes "0 < sint W"
  shows "(width_p0 d = W \<longrightarrow>
            (\<forall>n\<ge>1. \<exists>y. offset_after_p0 n d w = Some y \<and> uint y < sint W) \<and>
            (\<forall>n\<ge>1. \<forall>m\<ge>1. offset_after_p0 n d w = offset_after_p0 m d w
                          \<longleftrightarrow> n mod unat W = m mod unat W) \<and>
            (\<forall>y. uint y < sint W \<longrightarrow>
                 (\<exists>n. 1 \<le> n \<and> n \<le> unat W \<and> offset_after_p0 n d w = Some y)) \<and>
            (data_x_p0 d < W \<longrightarrow> offset_after_p0 (unat W) d w = Some (data_x_p0 d))) \<and>
         (last_width c = W \<longrightarrow>
            (\<forall>n\<ge>1. \<exists>y. offset_after n W c v = Some y \<and> uint y < sint W) \<and>
            (\<forall>n\<ge>1. \<forall>m\<ge>1. offset_after n W c v = offset_after m W c v
                          \<longleftrightarrow> n mod unat W = m mod unat W) \<and>
            (\<forall>y. uint y < sint W \<longrightarrow>
                 (\<exists>n. 1 \<le> n \<and> n \<le> unat W \<and> offset_after n W c v = Some y)) \<and>
            (data_x c < W \<longrightarrow> offset_after (unat W) W c v = Some (data_x c)))"
proof (intro conjI impI)
  have W0: "W \<noteq> 0" by (rule sint_pos_nonzero [OF assms])
  {
    assume "width_p0 d = W"
    then have "offset_after_p0 n d w = Some (((\<lambda>y. (y + 1) mod W) ^^ n) (data_x_p0 d))" for n
      using offset_after_p0_iter [of d n w] W0 by simp
    note wrap_cycle_all [OF assms, of "\<lambda>n. offset_after_p0 n d w", OF this]
  }
  note first = this
  {
    assume "last_width c = W"
    then have "offset_after n W c v = Some (((\<lambda>y. (y + 1) mod W) ^^ n) (data_x c))" for n
      using offset_after_iter [of c W n v] W0 by simp
    note wrap_cycle_all [OF assms, of "\<lambda>n. offset_after n W c v", OF this]
  }
  note second = this
  show "\<forall>n\<ge>1. \<exists>y. offset_after_p0 n d w = Some y \<and> uint y < sint W" if "width_p0 d = W"
    using first [OF that] by blast
  show "\<forall>n\<ge>1. \<forall>m\<ge>1. offset_after_p0 n d w = offset_after_p0 m d w
                          \<longleftrightarrow> n mod unat W = m mod unat W" if "width_p0 d = W"
    using first [OF that] by blast
  show "\<forall>y. uint y < sint W \<longrightarrow>
                 (\<exists>n. 1 \<le> n \<and> n \<le> unat W \<and> offset_after_p0 n d w = Some y)" if "width_p0 d = W"
    using first [OF that] by blast
  show "offset_after_p0 (unat W) d w = Some (data_x_p0 d)" if "width_p0 d = W" "data_x_p0 d < W"
    using first [OF that(1)] that(2) by blast
  show "\<forall>n\<ge>1. \<exists>y. offset_after n W c v = Some y \<and> uint y < sint W" if "last_width c = W"
    using second [OF that] by blast
  show "\<forall>n\<ge>1. \<forall>m\<ge>1. offset_after n W c v = offset_after m W c v
                          \<longleftrightarrow> n mod unat W = m mod unat W" if "last_width c = W"
    using second [OF that] by blast
  show "\<forall>y. uint y < sint W \<longrightarrow>
                 (\<exists>n. 1 \<le> n \<and> n \<le> unat W \<and> offset_after n W c v = Some y)" if "last_width c = W"
    using second [OF that] by blast
  show "offset_after (unat W) W c v = Some (data_x c)" if "last_width c = W" "data_x c < W"
    using second [OF that(1)] that(2) by blast
qed


text \<open>At width 800 and offset 400, 800 expiries bring the offset back to 400.\<close>

theorem increment_and_wrap_cycles_witness:
  "0 < sint (800 :: gint) \<and>
   offset_after_p0 800
     \<lparr>window_p0 = 1, pattern_p0 = 1, draw_timeout_id_p0 = 2, draw_timeout_interval = 5,
      data_x_p0 = 400, width_p0 = 800\<rparr>
     (initial_world \<lparr>new_window = 1, new_cursor = 1, default_xdisplay = 1\<rparr>) = Some 400 \<and>
   offset_after 800 800
     \<lparr>window = 1, pattern = 1, draw_timeout_id = 2, data_x = 400, last_width = 800\<rparr>
     (initial_world \<lparr>new_window = 1, new_cursor = 1, default_xdisplay = 1\<rparr>) = Some 400"
proof -
  have h: "0 < sint (800 :: gint)" by simp
  show ?thesis
    using h increment_and_wrap_cycles [OF h,
      of "\<lparr>window_p0 = 1, pattern_p0 = 1, draw_timeout_id_p0 = 2, draw_timeout_interval = 5,
           data_x_p0 = 400, width_p0 = 800\<rparr>"
         "initial_world \<lparr>new_window = 1, new_cursor = 1, default_xdisplay = 1\<rparr>"
         "\<lparr>window = 1, pattern = 1, draw_timeout_id = 2, data_x = 400, last_width = 800\<rparr>"
         "initial_world \<lparr>new_window = 1, new_cursor = 1, default_xdisplay = 1\<rparr>"]
    by simp
qed

subsection \<open>The invariant of \<^verbatim>\<open>plasmacleaner.c\<close>\<close>

lemmas world_ops =
  g_timeout_add_def g_source_remove_def cairo_pattern_create_linear_def
  cairo_pattern_add_color_stop_rgb_def cairo_pattern_set_extend_def update_pattern_def
  cairo_pattern_destroy_def gtk_widget_queue_draw_def cairo_paint_def XWarpPointer_def
  gtk_main_quit_def detach_def

lemma free_draw_timeout_and_pattern_inv:
  assumes "inv d sid w"
  shows "free_draw_timeout_and_pattern d w =
           (d\<lparr>draw_timeout_id := 0, pattern := 0\<rparr>,
            w\<lparr>sources := [(sid, SCREENSAVER_SUPPRESSION_PERIOD_MS,
                            On_screensaver_suppression_timer)],
              removed := removed w @ (if draw_timeout_id d = 0 then [] else [draw_timeout_id d]),
              patterns := [],
              destroyed := destroyed w @ (if pattern d = 0 then [] else [pattern d])\<rparr>)"
  using assms
  by (auto simp: inv_def free_draw_timeout_and_pattern_def world_ops Let_def)

lemma on_draw_timer_inv:
  assumes "inv d sid w" and "draw_timeout_id d \<noteq> 0" and "on_draw_timer d w = (b, d', w')"
  shows "inv d' sid w' \<and> b"
proof -
  have "last_width d \<noteq> 0" using assms(1,2) by (auto simp: inv_def)
  then show ?thesis
    using assms by (clarsimp simp: inv_def on_draw_timer_def gtk_widget_queue_draw_def Let_def)
qed

lemma on_screensaver_suppression_timer_inv:
  assumes "inv d sid w" and "on_screensaver_suppression_timer w = Inr (b, w')"
  shows "inv d sid w' \<and> b"
proof -
  have "w' = XWarpPointer w \<and> b"
    using assms(2)
    by (cases "xdisplay w = 0") (simp_all add: on_screensaver_suppression_timer_def Let_def)
  then show ?thesis
    using assms(1) by (clarsimp simp: inv_def XWarpPointer_def)
qed


lemma on_draw_rebuild:
  assumes "inv d sid w" and "last_width d \<noteq> width" and "timeout_interval width = Inr interval"
  shows "on_draw width d w =
           Inr (True,
                \<lparr>window = window d, pattern = Suc (pattern_count w),
                 draw_timeout_id = Suc (source_count w), data_x = data_x d mod width,
                 last_width = width\<rparr>,
                w\<lparr>sources := [(sid, SCREENSAVER_SUPPRESSION_PERIOD_MS,
                                On_screensaver_suppression_timer),
                               (Suc (source_count w), interval, On_draw_timer)],
                  source_count := Suc (source_count w),
                  removed := removed w @
                    (if draw_timeout_id d = 0 then [] else [draw_timeout_id d]),
                  patterns := [(Suc (pattern_count w),
                     \<lparr>x0 = 0, y0 = 0, x1 = real_of_int (sint width), y1 = 0,
                      stops = [(0, 1, 1, 1), (3 / 8, 1, 1, 1), (3 / 8, 0, 0, 0), (1, 0, 0, 0)],
                      extend_mode = EXTEND_REPEAT\<rparr>)],
                  pattern_count := Suc (pattern_count w),
                  destroyed := destroyed w @ (if pattern d = 0 then [] else [pattern d]),
                  painted := painted w @
                    [\<lparr>translate_x = real (unat (data_x d mod width)), scale_x = 1,
                      source = Suc (pattern_count w)\<rparr>]\<rparr>)"
proof -
  have "width \<noteq> 0" using assms(3) by (auto simp: timeout_interval_def)
  then show ?thesis
    using assms(2,3)
    by (simp add: on_draw_def free_draw_timeout_and_pattern_inv [OF assms(1)] Let_def
        world_ops BAR_FRACTION_def)
qed




lemma startup_inv:
  assumes "startup pf = Inr (d, sid, w)"
  shows "inv d sid w"
  using assms
  by (auto simp: startup_def inv_def g_timeout_add_def initial_world_def Let_def
      split: if_splits)

lemma startup_p0_inv:
  assumes "startup_p0 pf = Inr (d, sid, w)"
  shows "inv_p0 d sid w"
  using assms
  by (auto simp: startup_p0_def inv_p0_def g_timeout_add_def initial_world_def Let_def
      cairo_pattern_create_linear_def cairo_pattern_add_color_stop_rgb_def
      cairo_pattern_set_extend_def update_pattern_def BAR_FRACTION_def
      BAR_COLOUR_R_def BAR_COLOUR_G_def BAR_COLOUR_B_def
      split: if_splits)

lemma on_draw_zero:
  "\<exists>e. on_draw 0 d w = Inl e"
  by (simp add: on_draw_def timeout_interval_def Let_def split: prod.splits)

lemma word_mod_less:
  fixes width :: "32 word"
  assumes "width \<noteq> 0"
  shows "x mod width < width"
  using assms by (simp add: word_less_nat_alt unat_mod unat_gt_0)

lemma on_draw_inv:
  assumes "inv d sid w" and "on_draw width d w = Inr (b, d', w')"
  shows "inv d' sid w' \<and> b \<and> last_width d' = width \<and> width \<noteq> 0 \<and> data_x d' < width"
proof -
  have W0: "width \<noteq> 0"
    using assms(2) on_draw_zero [of d w] by auto
  note lt = word_mod_less [OF W0]
  show ?thesis
  proof (cases "last_width d = width")
    case True
    have "inv (d\<lparr>data_x := data_x d mod width\<rparr>) sid
            (cairo_paint (real (unat (data_x d mod width))) 1 (pattern d) w)"
      using assms(1) True W0 by (clarsimp simp: inv_def cairo_paint_def)
    then show ?thesis
      using assms(2) W0 lt True by (clarsimp simp: on_draw_same_width)
  next
    case False
    obtain i where i: "timeout_interval width = Inr i"
      using assms(2) False
      by (cases "timeout_interval width")
         (simp_all add: on_draw_def free_draw_timeout_and_pattern_inv [OF assms(1)] Let_def)
    note eq = assms(2) [unfolded on_draw_rebuild [OF assms(1) False i]]
    from assms(1) have facts:
      "0 < sid" "sid \<le> source_count w" "draw_timeout_id d \<le> source_count w"
      "distinct (removed w)"
      "\<forall>i \<in> set (removed w).
         0 < i \<and> i \<le> source_count w \<and> i \<noteq> sid \<and> i \<noteq> draw_timeout_id d"
      "pattern d \<le> pattern_count w" "distinct (destroyed w)"
      "\<forall>p \<in> set (destroyed w). 0 < p \<and> p \<le> pattern_count w \<and> p \<noteq> pattern d"
      "\<not> main_quit w"
      by (simp_all add: inv_def)
    from eq have d': "d' = \<lparr>window = window d, pattern = Suc (pattern_count w),
                 draw_timeout_id = Suc (source_count w), data_x = data_x d mod width,
                 last_width = width\<rparr>" by simp
    from eq have w': "sources w' = [(sid, SCREENSAVER_SUPPRESSION_PERIOD_MS,
                                On_screensaver_suppression_timer),
                               (Suc (source_count w), i, On_draw_timer)]"
       "source_count w' = Suc (source_count w)"
       "removed w' = removed w @ (if draw_timeout_id d = 0 then [] else [draw_timeout_id d])"
       "patterns w' = [(Suc (pattern_count w),
                     \<lparr>x0 = 0, y0 = 0, x1 = real_of_int (sint width), y1 = 0,
                      stops = [(0, 1, 1, 1), (3 / 8, 1, 1, 1), (3 / 8, 0, 0, 0), (1, 0, 0, 0)],
                      extend_mode = EXTEND_REPEAT\<rparr>)]"
       "pattern_count w' = Suc (pattern_count w)"
       "destroyed w' = destroyed w @ (if pattern d = 0 then [] else [pattern d])"
       "main_quit w' = main_quit w"
      by auto
    from assms(1) have ne: "draw_timeout_id d \<noteq> sid" by (simp add: inv_def)
    have r1: "draw_timeout_id d \<notin> set (removed w)" "pattern d \<notin> set (destroyed w)"
      using facts(5,8) by blast+
    have r2: "0 < j \<and> j \<le> Suc (source_count w) \<and> j \<noteq> Suc (source_count w) \<and> j \<noteq> sid"
      if "j \<in> set (removed w)" for j
    proof -
      from facts(5) that have "0 < j \<and> j \<le> source_count w \<and> j \<noteq> sid" by blast
      then show ?thesis by simp
    qed
    have r3: "0 < p \<and> p \<le> Suc (pattern_count w) \<and> p \<noteq> Suc (pattern_count w)"
      if "p \<in> set (destroyed w)" for p
    proof -
      from facts(8) that have "0 < p \<and> p \<le> pattern_count w" by blast
      then show ?thesis by simp
    qed
    have "inv d' sid w'"
      unfolding inv_def d' w'
      using facts(1-4,6,7,9) ne i W0 r1 r2 r3
      by (intro conjI) simp_all
    then show ?thesis using eq lt W0 by clarsimp
  qed
qed

lemma dispatch_timeout_draw:
  assumes "inv d sid w" and "map_of (sources w) i = Some (iv, On_draw_timer)"
  shows "i = draw_timeout_id d \<and> draw_timeout_id d \<noteq> 0 \<and>
         (case timeout_interval (last_width d) of Inl _ \<Rightarrow> 0 | Inr interval \<Rightarrow> interval) = iv"
  using assms by (clarsimp simp: inv_def split: if_splits)

lemma dispatch_inv:
  assumes "inv d sid w" and "dispatch e d w = Inr (d', w')" and "\<not> main_quit w'"
  shows "inv d' sid w'"
proof (cases e)
  case (Draw width)
  obtain b where "on_draw width d w = Inr (b, d', w')"
    using assms(2) Draw by (cases "on_draw width d w") (auto simp: dispatch_def)
  from on_draw_inv [OF assms(1) this] show ?thesis by simp
next
  case (Timeout i)
  show ?thesis
  proof (cases "map_of (sources w) i")
    case None
    then show ?thesis using assms Timeout by (simp add: dispatch_def)
  next
    case (Some a)
    obtain iv cb where a: "a = (iv, cb)" by (cases a)
    show ?thesis
    proof (cases cb)
      case On_draw_timer
      have id: "draw_timeout_id d \<noteq> 0"
        using dispatch_timeout_draw [OF assms(1)] Some a On_draw_timer by blast
      obtain b d1 w1 where r: "on_draw_timer d w = (b, d1, w1)"
        by (cases "on_draw_timer d w")
      from on_draw_timer_inv [OF assms(1) id r] have "inv d1 sid w1" and b by simp_all
      then show ?thesis
        using assms(2) Timeout Some a On_draw_timer r by (simp add: dispatch_def)
    next
      case On_screensaver_suppression_timer
      obtain b w1 where r: "on_screensaver_suppression_timer w = Inr (b, w1)"
        using assms(2) Timeout Some a On_screensaver_suppression_timer
        by (cases "on_screensaver_suppression_timer w") (auto simp: dispatch_def)
      from on_screensaver_suppression_timer_inv [OF assms(1) r] have "inv d sid w1" and b
        by simp_all
      then show ?thesis
        using assms(2) Timeout Some a On_screensaver_suppression_timer r
        by (simp add: dispatch_def)
    qed
  qed
next
  case Button_press
  then show ?thesis
    using assms(2,3)
    by (clarsimp simp: dispatch_def on_button_or_key_press_def on_destroy_def gtk_main_quit_def
        split: prod.splits)
next
  case Key_press
  then show ?thesis
    using assms(2,3)
    by (clarsimp simp: dispatch_def on_button_or_key_press_def on_destroy_def gtk_main_quit_def
        split: prod.splits)
qed

text \<open>What a button or key press leaves behind.\<close>

lemma on_destroy_inv:
  assumes "inv d sid w"
  shows "on_destroy d w =
           (d\<lparr>draw_timeout_id := 0, pattern := 0\<rparr>,
            w\<lparr>sources := [(sid, SCREENSAVER_SUPPRESSION_PERIOD_MS,
                            On_screensaver_suppression_timer)],
              removed := removed w @ (if draw_timeout_id d = 0 then [] else [draw_timeout_id d]),
              patterns := [],
              destroyed := destroyed w @ (if pattern d = 0 then [] else [pattern d]),
              main_quit := True\<rparr>)"
  by (simp add: on_destroy_def free_draw_timeout_and_pattern_inv [OF assms] gtk_main_quit_def)

lemma dispatch_quit:
  assumes "inv d sid w" and "dispatch e d w = Inr (d', w')" and "main_quit w'"
  shows "(e = Button_press \<or> e = Key_press) \<and> (d', w') = on_destroy d w"
proof (cases "e = Button_press \<or> e = Key_press")
  case True
  then show ?thesis
    using assms(2)
    by (auto simp: dispatch_def on_button_or_key_press_def split: prod.splits)
next
  case False
  have "dispatch e d w = Inr (d', w') \<Longrightarrow> \<not> main_quit w'"
  proof (cases e)
    case (Draw width)
    assume "dispatch e d w = Inr (d', w')"
    then obtain b where "on_draw width d w = Inr (b, d', w')"
      using Draw by (cases "on_draw width d w") (auto simp: dispatch_def)
    from on_draw_inv [OF assms(1) this] show ?thesis by (simp add: inv_def)
  next
    case (Timeout i)
    assume eq: "dispatch e d w = Inr (d', w')"
    show ?thesis
    proof (cases "map_of (sources w) i")
      case None
      then show ?thesis using assms(1) eq Timeout by (simp add: dispatch_def inv_def)
    next
      case (Some a)
      obtain iv cb where a: "a = (iv, cb)" by (cases a)
      show ?thesis
      proof (cases cb)
        case On_draw_timer
        then show ?thesis
          using assms(1) eq Timeout Some a
          by (clarsimp simp: dispatch_def on_draw_timer_def gtk_widget_queue_draw_def
              detach_def inv_def Let_def)
      next
        case On_screensaver_suppression_timer
        obtain b w1 where r: "on_screensaver_suppression_timer w = Inr (b, w1)"
          using eq Timeout Some a On_screensaver_suppression_timer
          by (cases "on_screensaver_suppression_timer w") (auto simp: dispatch_def)
        from on_screensaver_suppression_timer_inv [OF assms(1) r] show ?thesis
          using eq Timeout Some a On_screensaver_suppression_timer r
          by (simp add: dispatch_def inv_def)
      qed
    qed
  qed (use False in simp_all)
  with assms(2,3) show ?thesis by simp
qed

lemma gtk_main_inv:
  assumes "inv d sid w" and "gtk_main evs d w = Inr (d', w')"
  shows "(\<not> main_quit w' \<and> inv d' sid w') \<or>
         (main_quit w' \<and> (\<exists>d0 w0. inv d0 sid w0 \<and> (d', w') = on_destroy d0 w0))"
  using assms
proof (induction evs arbitrary: d w)
  case Nil
  then have i: "inv d' sid w'" by simp
  then have "\<not> main_quit w'" by (simp add: inv_def)
  with i show ?case by simp
next
  case (Cons e es)
  from Cons.prems(2) obtain d1 w1 where step: "dispatch e d w = Inr (d1, w1)"
    by (cases "dispatch e d w") auto
  show ?case
  proof (cases "main_quit w1")
    case True
    with Cons.prems(2) step have "d' = d1" "w' = w1" by simp_all
    with dispatch_quit [OF Cons.prems(1) step True] True Cons.prems(1) show ?thesis by blast
  next
    case False
    with Cons.prems(2) step have "gtk_main es d1 w1 = Inr (d', w')" by simp
    from Cons.IH [OF dispatch_inv [OF Cons.prems(1) step False] this] show ?thesis .
  qed
qed

lemma gtk_main_append:
  assumes "\<not> main_quit w"
  shows "gtk_main (evs @ es) d w =
     (case gtk_main evs d w of
        Inl err \<Rightarrow> Inl err
      | Inr (d', w') \<Rightarrow> if main_quit w' then Inr (d', w') else gtk_main es d' w')"
  using assms
proof (induction evs arbitrary: d w)
  case Nil
  then show ?case by simp
next
  case (Cons e evs)
  show ?case
  proof (cases "dispatch e d w")
    case (Inl err)
    then show ?thesis by simp
  next
    case (Inr r)
    obtain d1 w1 where r: "r = (d1, w1)" by (cases r)
    show ?thesis
    proof (cases "main_quit w1")
      case True
      then show ?thesis using Inr r by simp
    next
      case False
      from Cons.IH [OF False, of d1] show ?thesis using Inr r False by simp
    qed
  qed
qed

lemma main_running:
  assumes "main pf evs = Inr (Running d sid w)"
  shows "inv d sid w"
proof -
  from assms obtain d0 sid0 w0 where s: "startup pf = Inr (d0, sid0, w0)"
    by (cases "startup pf") (auto simp: main_def)
  from assms s obtain d1 w1 where g: "gtk_main evs d0 w0 = Inr (d1, w1)"
    by (cases "gtk_main evs d0 w0") (auto simp: main_def)
  from assms s g have "\<not> main_quit w1" "d = d1" "sid = sid0" "w = w1"
    by (auto simp: main_def split: if_splits)
  with gtk_main_inv [OF startup_inv [OF s] g] show ?thesis by simp
qed

lemma main_exited:
  assumes "main pf evs = Inr (Exited c w)"
  shows "c = 0 \<and> (\<exists>d0 sid w0. inv d0 sid w0 \<and> w = g_source_remove sid (snd (on_destroy d0 w0)))"
proof -
  from assms obtain d0 sid0 w0 where s: "startup pf = Inr (d0, sid0, w0)"
    by (cases "startup pf") (auto simp: main_def)
  from assms s obtain d1 w1 where g: "gtk_main evs d0 w0 = Inr (d1, w1)"
    by (cases "gtk_main evs d0 w0") (auto simp: main_def)
  from assms s g have q: "main_quit w1" "c = 0" "w = g_source_remove sid0 w1"
    by (auto simp: main_def split: if_splits)
  with gtk_main_inv [OF startup_inv [OF s] g]
  obtain d2 w2 where "inv d2 sid0 w2" "(d1, w1) = on_destroy d2 w2" by blast
  then have "inv d2 sid0 w2 \<and> w = g_source_remove sid0 (snd (on_destroy d2 w2))"
    using q(3) by (metis snd_conv)
  with q(2) show ?thesis by blast
qed

lemma main_append:
  assumes "main pf evs = Inr (Running d sid w)"
  shows "main pf (evs @ [e]) =
           (case dispatch e d w of
              Inl err \<Rightarrow> Inl err
            | Inr (d', w') \<Rightarrow>
                if main_quit w' then Inr (Exited 0 (g_source_remove sid w'))
                else Inr (Running d' sid w'))"
proof -
  from assms obtain d0 sid0 w0 where s: "startup pf = Inr (d0, sid0, w0)"
    by (cases "startup pf") (auto simp: main_def)
  from assms s obtain d1 w1 where g: "gtk_main evs d0 w0 = Inr (d1, w1)"
    by (cases "gtk_main evs d0 w0") (auto simp: main_def)
  from assms s g have q: "\<not> main_quit w1" "d = d1" "sid = sid0" "w = w1"
    by (auto simp: main_def split: if_splits)
  have "\<not> main_quit w0" using startup_inv [OF s] by (simp add: inv_def)
  then show ?thesis
    using s g q
    by (cases "dispatch e d w") (auto simp: main_def gtk_main_append)
qed

subsection \<open>The invariant of the second file\<close>

lemma rescale_unat:
  fixes x w1 w2 :: "32 word"
  shows "unat (x * w2 div w1) = (unat x * unat w2 mod 2 ^ 32) div unat w1"
  by (simp add: unat_div unat_word_ariths)

lemma rescale_less:
  fixes x w1 w2 :: "32 word"
  assumes "x < w1" and "w2 \<noteq> 0"
  shows "x * w2 div w1 < w2"
proof -
  have x: "unat x < unat w1" using assms(1) by (simp add: word_less_nat_alt)
  have w2: "0 < unat w2" using assms(2) by (simp add: unat_gt_0)
  have "unat x * unat w2 mod 2 ^ 32 \<le> unat x * unat w2" by simp
  also have "\<dots> < unat w1 * unat w2" using x w2 by simp
  finally have "unat x * unat w2 mod 2 ^ 32 < unat w2 * unat w1" by (simp add: mult.commute)
  then have "(unat x * unat w2 mod 2 ^ 32) div unat w1 < unat w2"
    by (rule less_mult_imp_div_less)
  then show ?thesis by (simp add: word_less_nat_alt rescale_unat)
qed

lemma rescale_exact:
  fixes x w1 w2 :: "32 word"
  assumes "unat x * unat w2 < 2 ^ 32"
  shows "unat (x * w2 div w1) = unat x * unat w2 div unat w1"
  using assms by (simp add: rescale_unat)

lemma free_draw_timeout_inv:
  assumes "inv_p0 d sid w"
  shows "free_draw_timeout d w =
           (d\<lparr>draw_timeout_id_p0 := 0\<rparr>,
            w\<lparr>sources := [(sid, SCREENSAVER_SUPPRESSION_PERIOD_MS,
                            On_screensaver_suppression_timer)],
              removed := removed w @
                (if draw_timeout_id_p0 d = 0 then [] else [draw_timeout_id_p0 d])\<rparr>)"
  using assms
  by (clarsimp simp: inv_p0_def free_draw_timeout_def g_source_remove_def)

lemma on_draw_timer_p0_inv:
  assumes "inv_p0 d sid w" and "draw_timeout_id_p0 d \<noteq> 0"
  shows "\<exists>d' w'. on_draw_timer_p0 d w = Inr (True, d', w') \<and> inv_p0 d' sid w'"
proof -
  have W0: "width_p0 d \<noteq> 0" using assms by (auto simp: inv_p0_def)
  note lt = word_mod_less [OF W0]
  have "inv_p0 (d\<lparr>data_x_p0 := (data_x_p0 d + 1) mod width_p0 d\<rparr>) sid
          (gtk_widget_queue_draw (window_p0 d) w)"
    using assms(1) W0 lt by (clarsimp simp: inv_p0_def gtk_widget_queue_draw_def)
  then show ?thesis using W0 by (simp add: on_draw_timer_p0_def Let_def)
qed

lemma on_screensaver_suppression_timer_inv_p0:
  assumes "inv_p0 d sid w" and "on_screensaver_suppression_timer w = Inr (b, w')"
  shows "inv_p0 d sid w' \<and> b"
proof -
  have "w' = XWarpPointer w \<and> b"
    using assms(2)
    by (cases "xdisplay w = 0") (simp_all add: on_screensaver_suppression_timer_def Let_def)
  then show ?thesis
    using assms(1) by (clarsimp simp: inv_p0_def XWarpPointer_def)
qed

lemma on_draw_p0_inv:
  assumes "inv_p0 d sid w" and "width \<noteq> 0"
  shows "\<exists>d' w'. on_draw_p0 width d w = Inr (True, d', w') \<and> inv_p0 d' sid w' \<and>
           width_p0 d' = width"
proof -
  from assms(1) have facts:
    "0 < sid" "sid \<le> source_count w" "draw_timeout_id_p0 d \<le> source_count w"
    "draw_timeout_id_p0 d \<noteq> sid" "distinct (removed w)"
    "pattern_p0 d \<noteq> 0" "destroyed w = []" "\<not> main_quit w"
    "pattern_p0 d \<le> pattern_count w"
    by (simp_all add: inv_p0_def)
  from assms(1) have rem:
    "\<forall>i \<in> set (removed w).
       0 < i \<and> i \<le> source_count w \<and> i \<noteq> sid \<and> i \<noteq> draw_timeout_id_p0 d"
    by (simp add: inv_p0_def)
  have r1: "draw_timeout_id_p0 d \<notin> set (removed w)" using rem by blast
  have r2: "0 < j \<and> j \<le> Suc (source_count w) \<and> j \<noteq> Suc (source_count w) \<and> j \<noteq> sid"
    if "j \<in> set (removed w)" for j
  proof -
    from rem that have "0 < j \<and> j \<le> source_count w \<and> j \<noteq> sid" by blast
    then show ?thesis by simp
  qed
  have x: "data_x_p0 d * width div width_p0 d < width" if "width_p0 d \<noteq> 0"
    using assms that by (intro rescale_less) (simp_all add: inv_p0_def)
  have x0: "data_x_p0 d = 0" "draw_timeout_id_p0 d = 0" "draw_timeout_interval d = 0"
    if "width_p0 d = 0"
    using assms(1) that by (simp_all add: inv_p0_def)
  have pos: "(0 :: 32 word) < width" using assms(2) by (simp add: word_greater_zero_iff)
  show ?thesis
  proof (cases "draw_timeout_interval d = PERIOD_MS div width")
    case True
    show ?thesis
    proof (cases "width_p0 d = width")
      case same: True
      show ?thesis
        using assms True same
        by (clarsimp simp: on_draw_p0_def Let_def inv_p0_def cairo_paint_def)
    next
      case diff: False
      show ?thesis
      proof (cases "width_p0 d = 0")
        case z: True
        show ?thesis
          using assms True diff z x0 pos
          by (clarsimp simp: on_draw_p0_def Let_def inv_p0_def cairo_paint_def)
      next
        case nz: False
        show ?thesis
          using assms True diff nz x
          by (clarsimp simp: on_draw_p0_def Let_def inv_p0_def cairo_paint_def)
      qed
    qed
  next
    case False
    note free = free_draw_timeout_inv [OF assms(1)]
    from assms(1) have pat: "patterns w =
       [(pattern_p0 d,
         \<lparr>x0 = 0, y0 = 0, x1 = 1, y1 = 0,
          stops = [(0, 9 / 10, 9 / 10, 1), (3 / 8, 9 / 10, 9 / 10, 1),
                   (3 / 8, 0, 0, 0), (1, 0, 0, 0)],
          extend_mode = EXTEND_REPEAT\<rparr>)]"
      by (simp add: inv_p0_def)
    show ?thesis
    proof (cases "width_p0 d = width")
      case same: True
      have lt: "data_x_p0 d < width" using assms same by (simp add: inv_p0_def)
      show ?thesis
        using assms(2) False same facts r1 r2 lt pat
        by (simp add: on_draw_p0_def Let_def free inv_p0_def cairo_paint_def
            g_timeout_add_def)
    next
      case diff: False
      show ?thesis
      proof (cases "width_p0 d = 0")
        case z: True
        show ?thesis
          using assms(2) False diff z facts r1 r2 x0 pos pat
          by (simp add: on_draw_p0_def Let_def free inv_p0_def cairo_paint_def
              g_timeout_add_def)
      next
        case nz: False
        show ?thesis
          using assms(2) False diff nz facts r1 r2 x [OF nz] pat
          by (simp add: on_draw_p0_def Let_def free inv_p0_def cairo_paint_def
              g_timeout_add_def)
      qed
    qed
  qed
qed

lemma inv_p0_not_quit:
  assumes "inv_p0 d sid w"
  shows "\<not> main_quit w"
  using assms by (simp add: inv_p0_def)

lemma dispatch_p0_timeout_draw:
  assumes "inv_p0 d sid w" and "map_of (sources w) i = Some (iv, On_draw_timer)"
  shows "i = draw_timeout_id_p0 d \<and> draw_timeout_id_p0 d \<noteq> 0 \<and> draw_timeout_interval d = iv"
  using assms by (clarsimp simp: inv_p0_def split: if_splits)

lemma on_destroy_p0_inv:
  assumes "inv_p0 d sid w"
  shows "on_destroy_p0 d w =
           (d\<lparr>draw_timeout_id_p0 := 0\<rparr>,
            w\<lparr>sources := [(sid, SCREENSAVER_SUPPRESSION_PERIOD_MS,
                            On_screensaver_suppression_timer)],
              removed := removed w @
                (if draw_timeout_id_p0 d = 0 then [] else [draw_timeout_id_p0 d]),
              main_quit := True\<rparr>)"
  by (simp add: on_destroy_p0_def free_draw_timeout_inv [OF assms] gtk_main_quit_def)

lemma dispatch_p0_step:
  assumes "inv_p0 d sid w" and "dispatch_p0 e d w = Inr (d', w')"
  shows "if e = Button_press \<or> e = Key_press
         then main_quit w' \<and> (d', w') = on_destroy_p0 d w
         else \<not> main_quit w' \<and> inv_p0 d' sid w'"
proof (cases e)
  case (Draw width)
  have W0: "width \<noteq> 0"
    using assms(2) Draw by (auto simp: dispatch_p0_def on_draw_p0_def)
  from on_draw_p0_inv [OF assms(1) W0] obtain d1 w1
    where "on_draw_p0 width d w = Inr (True, d1, w1)" "inv_p0 d1 sid w1" by blast
  then show ?thesis
    using assms(2) Draw inv_p0_not_quit [of d1 sid w1] by (simp add: dispatch_p0_def)
next
  case (Timeout i)
  show ?thesis
  proof (cases "map_of (sources w) i")
    case None
    then show ?thesis
      using assms Timeout inv_p0_not_quit [OF assms(1)] by (simp add: dispatch_p0_def)
  next
    case (Some a)
    obtain iv cb where a: "a = (iv, cb)" by (cases a)
    show ?thesis
    proof (cases cb)
      case On_draw_timer
      have id: "draw_timeout_id_p0 d \<noteq> 0"
        using dispatch_p0_timeout_draw [OF assms(1)] Some a On_draw_timer by blast
      from on_draw_timer_p0_inv [OF assms(1) id] obtain d1 w1
        where "on_draw_timer_p0 d w = Inr (True, d1, w1)" "inv_p0 d1 sid w1" by blast
      then show ?thesis
        using assms(2) Timeout Some a On_draw_timer inv_p0_not_quit [of d1 sid w1]
        by (simp add: dispatch_p0_def)
    next
      case On_screensaver_suppression_timer
      obtain b w1 where r: "on_screensaver_suppression_timer w = Inr (b, w1)"
        using assms(2) Timeout Some a On_screensaver_suppression_timer
        by (cases "on_screensaver_suppression_timer w") (auto simp: dispatch_p0_def)
      from on_screensaver_suppression_timer_inv_p0 [OF assms(1) r]
      have "inv_p0 d sid w1" and b by simp_all
      then show ?thesis
        using assms(2) Timeout Some a On_screensaver_suppression_timer r
          inv_p0_not_quit [of d sid w1]
        by (simp add: dispatch_p0_def)
    qed
  qed
next
  case Button_press
  then show ?thesis
    using assms(2)
    by (auto simp: dispatch_p0_def on_button_or_key_press_p0_def
        on_destroy_p0_inv [OF assms(1)])
next
  case Key_press
  then show ?thesis
    using assms(2)
    by (auto simp: dispatch_p0_def on_button_or_key_press_p0_def
        on_destroy_p0_inv [OF assms(1)])
qed

lemma gtk_main_p0_inv:
  assumes "inv_p0 d sid w" and "gtk_main_p0 evs d w = Inr (d', w')"
  shows "(\<not> main_quit w' \<and> inv_p0 d' sid w') \<or>
         (main_quit w' \<and> (\<exists>d0 w0. inv_p0 d0 sid w0 \<and> (d', w') = on_destroy_p0 d0 w0))"
  using assms
proof (induction evs arbitrary: d w)
  case Nil
  then have i: "inv_p0 d' sid w'" by simp
  with inv_p0_not_quit [OF i] show ?case by simp
next
  case (Cons e es)
  from Cons.prems(2) obtain d1 w1 where step: "dispatch_p0 e d w = Inr (d1, w1)"
    by (cases "dispatch_p0 e d w") auto
  note s = dispatch_p0_step [OF Cons.prems(1) step]
  show ?case
  proof (cases "main_quit w1")
    case True
    with Cons.prems(2) step have "d' = d1" "w' = w1" by simp_all
    with s True Cons.prems(1) show ?thesis by (auto split: if_splits)
  next
    case False
    with Cons.prems(2) step have g: "gtk_main_p0 es d1 w1 = Inr (d', w')" by simp
    from s False have "inv_p0 d1 sid w1" by (auto split: if_splits)
    from Cons.IH [OF this g] show ?thesis .
  qed
qed

lemma gtk_main_p0_append:
  assumes "\<not> main_quit w"
  shows "gtk_main_p0 (evs @ es) d w =
     (case gtk_main_p0 evs d w of
        Inl err \<Rightarrow> Inl err
      | Inr (d', w') \<Rightarrow> if main_quit w' then Inr (d', w') else gtk_main_p0 es d' w')"
  using assms
proof (induction evs arbitrary: d w)
  case Nil
  then show ?case by simp
next
  case (Cons e evs)
  show ?case
  proof (cases "dispatch_p0 e d w")
    case (Inl err)
    then show ?thesis by simp
  next
    case (Inr r)
    obtain d1 w1 where r: "r = (d1, w1)" by (cases r)
    show ?thesis
    proof (cases "main_quit w1")
      case True
      then show ?thesis using Inr r by simp
    next
      case False
      from Cons.IH [OF False, of d1] show ?thesis using Inr r False by simp
    qed
  qed
qed

lemma main_p0_running:
  assumes "main_p0 pf evs = Inr (Running d sid w)"
  shows "inv_p0 d sid w"
proof -
  from assms obtain d0 sid0 w0 where s: "startup_p0 pf = Inr (d0, sid0, w0)"
    by (cases "startup_p0 pf") (auto simp: main_p0_def)
  from assms s obtain d1 w1 where g: "gtk_main_p0 evs d0 w0 = Inr (d1, w1)"
    by (cases "gtk_main_p0 evs d0 w0") (auto simp: main_p0_def)
  from assms s g have "\<not> main_quit w1" "d = d1" "sid = sid0" "w = w1"
    by (auto simp: main_p0_def split: if_splits)
  with gtk_main_p0_inv [OF startup_p0_inv [OF s] g] show ?thesis by simp
qed

lemma main_p0_exited:
  assumes "main_p0 pf evs = Inr (Exited c w)"
  shows "c = 0 \<and>
         (\<exists>d0 sid w0. inv_p0 d0 sid w0 \<and>
            w = cairo_pattern_destroy (pattern_p0 d0)
                  (g_source_remove sid (snd (on_destroy_p0 d0 w0))))"
proof -
  from assms obtain d0 sid0 w0 where s: "startup_p0 pf = Inr (d0, sid0, w0)"
    by (cases "startup_p0 pf") (auto simp: main_p0_def)
  from assms s obtain d1 w1 where g: "gtk_main_p0 evs d0 w0 = Inr (d1, w1)"
    by (cases "gtk_main_p0 evs d0 w0") (auto simp: main_p0_def)
  from assms s g have q: "main_quit w1" "c = 0"
    "w = cairo_pattern_destroy (pattern_p0 d1) (g_source_remove sid0 w1)"
    by (auto simp: main_p0_def split: if_splits)
  with gtk_main_p0_inv [OF startup_p0_inv [OF s] g]
  obtain d2 w2 where i: "inv_p0 d2 sid0 w2" and e: "(d1, w1) = on_destroy_p0 d2 w2" by blast
  from e have "pattern_p0 d1 = pattern_p0 d2" "w1 = snd (on_destroy_p0 d2 w2)"
    by (simp_all add: on_destroy_p0_inv [OF i])
  with q(3) i have "inv_p0 d2 sid0 w2 \<and>
      w = cairo_pattern_destroy (pattern_p0 d2)
            (g_source_remove sid0 (snd (on_destroy_p0 d2 w2)))" by simp
  with q(2) show ?thesis by blast
qed

lemma main_p0_append:
  assumes "main_p0 pf evs = Inr (Running d sid w)"
  shows "main_p0 pf (evs @ [e]) =
           (case dispatch_p0 e d w of
              Inl err \<Rightarrow> Inl err
            | Inr (d', w') \<Rightarrow>
                if main_quit w'
                then Inr (Exited 0 (cairo_pattern_destroy (pattern_p0 d')
                                      (g_source_remove sid w')))
                else Inr (Running d' sid w'))"
proof -
  from assms obtain d0 sid0 w0 where s: "startup_p0 pf = Inr (d0, sid0, w0)"
    by (cases "startup_p0 pf") (auto simp: main_p0_def)
  from assms s obtain d1 w1 where g: "gtk_main_p0 evs d0 w0 = Inr (d1, w1)"
    by (cases "gtk_main_p0 evs d0 w0") (auto simp: main_p0_def)
  from assms s g have q: "\<not> main_quit w1" "d = d1" "sid = sid0" "w = w1"
    by (auto simp: main_p0_def split: if_splits)
  have "\<not> main_quit w0" by (rule inv_p0_not_quit [OF startup_p0_inv [OF s]])
  then show ?thesis
    using s g q
    by (cases "dispatch_p0 e d w") (auto simp: main_p0_def gtk_main_p0_append)
qed

subsection \<open>Running the model\<close>

text \<open>The equations that let the simplifier run the program on a given list of events.\<close>

lemmas run_defs =
  main_def startup_def dispatch_def on_draw_def on_draw_timer_def on_destroy_def
  on_button_or_key_press_def free_draw_timeout_and_pattern_def timeout_interval_def
  double_to_guint_def
  main_p0_def startup_p0_def dispatch_p0_def on_draw_p0_def on_draw_timer_p0_def
  on_destroy_p0_def on_button_or_key_press_p0_def free_draw_timeout_def
  on_screensaver_suppression_timer_def initial_world_def x11_platform_def
  no_x11_platform_def world_ops Let_def
  PERIOD_MS_def SCREENSAVER_SUPPRESSION_PERIOD_MS_def BAR_FRACTION_def
  BAR_COLOUR_R_def BAR_COLOUR_G_def BAR_COLOUR_B_def

subsection \<open>The world after the main loop\<close>

lemma exit_world:
  assumes "inv d sid w"
  shows "sources (g_source_remove sid (snd (on_destroy d w))) = []"
    and "patterns (g_source_remove sid (snd (on_destroy d w))) = []"
    and "removed (g_source_remove sid (snd (on_destroy d w))) =
           removed w @ (if draw_timeout_id d = 0 then [] else [draw_timeout_id d]) @ [sid]"
    and "destroyed (g_source_remove sid (snd (on_destroy d w))) =
           destroyed w @ (if pattern d = 0 then [] else [pattern d])"
  by (simp_all add: on_destroy_inv [OF assms] g_source_remove_def)

lemma exit_world_distinct:
  assumes "inv d sid w"
  shows "distinct (removed (g_source_remove sid (snd (on_destroy d w))))"
    and "distinct (destroyed (g_source_remove sid (snd (on_destroy d w))))"
proof -
  from assms have f: "distinct (removed w)" "distinct (destroyed w)"
    "draw_timeout_id d \<noteq> sid"
    "\<forall>i \<in> set (removed w). i \<noteq> sid \<and> i \<noteq> draw_timeout_id d"
    "\<forall>p \<in> set (destroyed w). p \<noteq> pattern d"
    by (simp_all add: inv_def)
  from f(4) have "sid \<notin> set (removed w)" "draw_timeout_id d \<notin> set (removed w)" by blast+
  then show "distinct (removed (g_source_remove sid (snd (on_destroy d w))))"
    using f(1,3) by (simp add: exit_world [OF assms])
  from f(5) have "pattern d \<notin> set (destroyed w)" by blast
  then show "distinct (destroyed (g_source_remove sid (snd (on_destroy d w))))"
    using f(2) by (simp add: exit_world [OF assms])
qed

lemma exit_world_p0:
  assumes "inv_p0 d sid w"
  shows "sources (cairo_pattern_destroy (pattern_p0 d)
            (g_source_remove sid (snd (on_destroy_p0 d w)))) = []"
    and "patterns (cairo_pattern_destroy (pattern_p0 d)
            (g_source_remove sid (snd (on_destroy_p0 d w)))) = []"
    and "removed (cairo_pattern_destroy (pattern_p0 d)
            (g_source_remove sid (snd (on_destroy_p0 d w)))) =
           removed w @ (if draw_timeout_id_p0 d = 0 then [] else [draw_timeout_id_p0 d]) @ [sid]"
    and "destroyed (cairo_pattern_destroy (pattern_p0 d)
            (g_source_remove sid (snd (on_destroy_p0 d w)))) = [pattern_p0 d]"
  using assms
  by (simp_all add: on_destroy_p0_inv [OF assms] g_source_remove_def cairo_pattern_destroy_def
      inv_p0_def)

lemma exit_world_p0_distinct:
  assumes "inv_p0 d sid w"
  shows "distinct (removed (cairo_pattern_destroy (pattern_p0 d)
            (g_source_remove sid (snd (on_destroy_p0 d w)))))"
proof -
  from assms have f: "distinct (removed w)" "draw_timeout_id_p0 d \<noteq> sid"
    "\<forall>i \<in> set (removed w). i \<noteq> sid \<and> i \<noteq> draw_timeout_id_p0 d"
    by (simp_all add: inv_p0_def)
  from f(3) have "sid \<notin> set (removed w)" "draw_timeout_id_p0 d \<notin> set (removed w)" by blast+
  then show ?thesis using f(1,2) by (simp add: exit_world_p0 [OF assms])
qed

lemma free_twice:
  "free_draw_timeout_and_pattern (fst (free_draw_timeout_and_pattern d w))
     (snd (free_draw_timeout_and_pattern d w)) = free_draw_timeout_and_pattern d w"
  by (simp add: free_draw_timeout_and_pattern_def Let_def)

lemma free_p0_twice:
  "free_draw_timeout (fst (free_draw_timeout d w)) (snd (free_draw_timeout d w)) =
     free_draw_timeout d w"
  by (simp add: free_draw_timeout_def)

subsection \<open>Releasing the timer and the pattern\<close>

text \<open>
  C10. The release helper is idempotent: after one call the timer id and the pattern
  pointer of \<^verbatim>\<open>plasmacleaner.c\<close> are 0, and a second call returns the data and the world
  of the first, so it removes and destroys nothing more; the same holds for the helper of
  the second file, which releases the timer alone. Along every sequence of events, whether
  the process is still running or has returned from \<^verbatim>\<open>main\<close>, no source id was given
  to \<^verbatim>\<open>g_source_remove\<close> twice and no pattern to \<^verbatim>\<open>cairo_pattern_destroy\<close> twice, and all
  of them had been handed out before.
\<close>

theorem release_idempotent_never_twice:
  "draw_timeout_id (fst (free_draw_timeout_and_pattern d w)) = 0 \<and>
   pattern (fst (free_draw_timeout_and_pattern d w)) = 0 \<and>
   free_draw_timeout_and_pattern (fst (free_draw_timeout_and_pattern d w))
     (snd (free_draw_timeout_and_pattern d w)) = free_draw_timeout_and_pattern d w \<and>
   draw_timeout_id_p0 (fst (free_draw_timeout c v)) = 0 \<and>
   free_draw_timeout (fst (free_draw_timeout c v)) (snd (free_draw_timeout c v)) =
     free_draw_timeout c v \<and>
   (main pf evs = Inr r \<longrightarrow>
      distinct (removed (world_of r)) \<and> distinct (destroyed (world_of r)) \<and>
      (\<forall>i \<in> set (removed (world_of r)). 0 < i \<and> i \<le> source_count (world_of r)) \<and>
      (\<forall>p \<in> set (destroyed (world_of r)). 0 < p \<and> p \<le> pattern_count (world_of r))) \<and>
   (main_p0 pf evs = Inr r0 \<longrightarrow>
      distinct (removed (world_of r0)) \<and> distinct (destroyed (world_of r0)) \<and>
      (\<forall>i \<in> set (removed (world_of r0)). 0 < i \<and> i \<le> source_count (world_of r0)) \<and>
      (\<forall>p \<in> set (destroyed (world_of r0)). 0 < p \<and> p \<le> pattern_count (world_of r0)))"
proof (intro conjI impI)
  show "draw_timeout_id (fst (free_draw_timeout_and_pattern d w)) = 0"
    by (simp add: free_draw_timeout_and_pattern_def Let_def)
  show "pattern (fst (free_draw_timeout_and_pattern d w)) = 0"
    by (simp add: free_draw_timeout_and_pattern_def Let_def)
  show "free_draw_timeout_and_pattern (fst (free_draw_timeout_and_pattern d w))
     (snd (free_draw_timeout_and_pattern d w)) = free_draw_timeout_and_pattern d w"
    by (rule free_twice)
  show "draw_timeout_id_p0 (fst (free_draw_timeout c v)) = 0"
    by (simp add: free_draw_timeout_def)
  show "free_draw_timeout (fst (free_draw_timeout c v)) (snd (free_draw_timeout c v)) =
     free_draw_timeout c v"
    by (rule free_p0_twice)
next
  assume run: "main pf evs = Inr r"
  have "distinct (removed (world_of r)) \<and> distinct (destroyed (world_of r)) \<and>
      (\<forall>i \<in> set (removed (world_of r)). 0 < i \<and> i \<le> source_count (world_of r)) \<and>
      (\<forall>p \<in> set (destroyed (world_of r)). 0 < p \<and> p \<le> pattern_count (world_of r))"
  proof (cases r)
    case (Running d1 sid w1)
    from main_running [OF run [unfolded Running]] show ?thesis
      unfolding Running by (simp add: inv_def)
  next
    case (Exited code w1)
    from main_exited [OF run [unfolded Exited]] obtain d0 sid w0
      where i: "inv d0 sid w0" and w1: "w1 = g_source_remove sid (snd (on_destroy d0 w0))"
      by blast
    from i have f: "0 < sid" "sid \<le> source_count w0" "draw_timeout_id d0 \<le> source_count w0"
      "pattern d0 \<le> pattern_count w0"
      "\<forall>i \<in> set (removed w0). 0 < i \<and> i \<le> source_count w0"
      "\<forall>p \<in> set (destroyed w0). 0 < p \<and> p \<le> pattern_count w0"
      by (simp_all add: inv_def)
    have c: "source_count w1 = source_count w0" "pattern_count w1 = pattern_count w0"
      by (simp_all add: w1 on_destroy_inv [OF i] g_source_remove_def)
    show ?thesis
      unfolding Exited world_of.simps
      using exit_world_distinct [OF i] exit_world(3,4) [OF i] f c
      by (simp add: w1 [symmetric])
  qed
  then show "distinct (removed (world_of r))" "distinct (destroyed (world_of r))"
    "\<forall>i \<in> set (removed (world_of r)). 0 < i \<and> i \<le> source_count (world_of r)"
    "\<forall>p \<in> set (destroyed (world_of r)). 0 < p \<and> p \<le> pattern_count (world_of r)"
    by blast+
next
  assume run: "main_p0 pf evs = Inr r0"
  have "distinct (removed (world_of r0)) \<and> distinct (destroyed (world_of r0)) \<and>
      (\<forall>i \<in> set (removed (world_of r0)). 0 < i \<and> i \<le> source_count (world_of r0)) \<and>
      (\<forall>p \<in> set (destroyed (world_of r0)). 0 < p \<and> p \<le> pattern_count (world_of r0))"
  proof (cases r0)
    case (Running d1 sid w1)
    from main_p0_running [OF run [unfolded Running]] show ?thesis
      unfolding Running by (simp add: inv_p0_def)
  next
    case (Exited code w1)
    from main_p0_exited [OF run [unfolded Exited]] obtain d0 sid w0
      where i: "inv_p0 d0 sid w0"
        and w1: "w1 = cairo_pattern_destroy (pattern_p0 d0)
                        (g_source_remove sid (snd (on_destroy_p0 d0 w0)))"
      by blast
    from i have f: "0 < sid" "sid \<le> source_count w0" "draw_timeout_id_p0 d0 \<le> source_count w0"
      "\<forall>i \<in> set (removed w0). 0 < i \<and> i \<le> source_count w0"
      by (simp_all add: inv_p0_def)
    have c: "source_count w1 = source_count w0" "pattern_count w1 = pattern_count w0"
      "0 < pattern_p0 d0" "pattern_p0 d0 \<le> pattern_count w0"
      using i
      by (simp_all add: w1 on_destroy_p0_inv [OF i] g_source_remove_def
          cairo_pattern_destroy_def inv_p0_def)
    show ?thesis
      unfolding Exited world_of.simps
      using exit_world_p0_distinct [OF i] exit_world_p0(3,4) [OF i] f c
      by (simp add: w1 [symmetric])
  qed
  then show "distinct (removed (world_of r0))" "distinct (destroyed (world_of r0))"
    "\<forall>i \<in> set (removed (world_of r0)). 0 < i \<and> i \<le> source_count (world_of r0)"
    "\<forall>p \<in> set (destroyed (world_of r0)). 0 < p \<and> p \<le> pattern_count (world_of r0)"
    by blast+
qed


text \<open>Two widths and a key press: the two repaint timers, the suppression timer and the
  two gradients of \<^verbatim>\<open>plasmacleaner.c\<close> are each released once, and so are the timers
  and the one gradient of the second file.\<close>

theorem release_idempotent_never_twice_witness:
  "(\<exists>w. main x11_platform [Draw 800, Draw 1600, Key_press] = Inr (Exited 0 w) \<and>
        removed w = [2, 3, 1] \<and> destroyed w = [1, 2] \<and>
        distinct (removed w) \<and> distinct (destroyed w)) \<and>
   (\<exists>w. main_p0 x11_platform [Draw 800, Draw 1600, Key_press] = Inr (Exited 0 w) \<and>
        removed w = [2, 3, 1] \<and> destroyed w = [1] \<and>
        distinct (removed w) \<and> distinct (destroyed w))"
proof -
  have "\<exists>w. main x11_platform [Draw 800, Draw 1600, Key_press] = Inr (Exited 0 w) \<and>
          removed w = [2, 3, 1] \<and> destroyed w = [1, 2]"
    by (simp add: run_defs)
  then obtain w where run: "main x11_platform [Draw 800, Draw 1600, Key_press] = Inr (Exited 0 w)"
    and l: "removed w = [2, 3, 1]" "destroyed w = [1, 2]" by blast
  have "\<exists>w. main_p0 x11_platform [Draw 800, Draw 1600, Key_press] = Inr (Exited 0 w) \<and>
          removed w = [2, 3, 1] \<and> destroyed w = [1]"
    by (simp add: run_defs)
  then obtain v where run0: "main_p0 x11_platform [Draw 800, Draw 1600, Key_press] = Inr (Exited 0 v)"
    and l0: "removed v = [2, 3, 1]" "destroyed v = [1]" by blast
  note t = release_idempotent_never_twice
    [where pf = x11_platform and evs = "[Draw 800, Draw 1600, Key_press]"
       and r = "Exited 0 w" and ?r0.0 = "Exited 0 v"]
  from t run have "distinct (removed w) \<and> distinct (destroyed w)" by simp
  moreover from t run0 have "distinct (removed v) \<and> distinct (destroyed v)" by simp
  ultimately show ?thesis using run run0 l l0 by blast
qed

subsection \<open>Shutdown on a key or button press\<close>

lemma dispatch_press:
  assumes "inv d sid w" and "e = Key_press \<or> e = Button_press"
  shows "dispatch e d w = Inr (on_destroy d w)"
  using assms(2)
  by (auto simp: dispatch_def on_button_or_key_press_def split: prod.splits)

lemma dispatch_p0_press:
  assumes "inv_p0 d sid w" and "e = Key_press \<or> e = Button_press"
  shows "dispatch_p0 e d w = Inr (on_destroy_p0 d w)"
  using assms(2)
  by (auto simp: dispatch_p0_def on_button_or_key_press_p0_def split: prod.splits)

lemma main_press:
  assumes "main pf evs = Inr (Running d sid w)" and "e = Key_press \<or> e = Button_press"
  shows "main pf (evs @ [e]) = Inr (Exited 0 (g_source_remove sid (snd (on_destroy d w))))"
proof -
  note i = main_running [OF assms(1)]
  show ?thesis
    by (simp add: main_append [OF assms(1)] dispatch_press [OF i assms(2)]
        on_destroy_inv [OF i])
qed

lemma main_p0_press:
  assumes "main_p0 pf evs = Inr (Running d sid w)" and "e = Key_press \<or> e = Button_press"
  shows "main_p0 pf (evs @ [e]) =
           Inr (Exited 0 (cairo_pattern_destroy (pattern_p0 d)
                            (g_source_remove sid (snd (on_destroy_p0 d w)))))"
proof -
  note i = main_p0_running [OF assms(1)]
  show ?thesis
    by (simp add: main_p0_append [OF assms(1)] dispatch_p0_press [OF i assms(2)]
        on_destroy_p0_inv [OF i])
qed

text \<open>
  C8. Whenever the process is inside the main loop, a key press or a button press ends
  it with status 0, and in the world it leaves behind no timeout source is attached and
  no pattern is alive: the repaint timer (if one was registered) and the suppression
  timer were removed, and the gradient (if one was built) was destroyed.
\<close>

theorem press_shuts_down:
  assumes "e = Key_press \<or> e = Button_press"
  shows "(main pf evs = Inr (Running d sid w) \<longrightarrow>
            (\<exists>w'. main pf (evs @ [e]) = Inr (Exited 0 w') \<and>
                  sources w' = [] \<and> patterns w' = [] \<and>
                  sid \<in> set (removed w') \<and>
                  (draw_timeout_id d \<noteq> 0 \<longrightarrow> draw_timeout_id d \<in> set (removed w')) \<and>
                  (pattern d \<noteq> 0 \<longrightarrow> pattern d \<in> set (destroyed w')))) \<and>
         (main_p0 pf evs = Inr (Running c sid0 v) \<longrightarrow>
            (\<exists>v'. main_p0 pf (evs @ [e]) = Inr (Exited 0 v') \<and>
                  sources v' = [] \<and> patterns v' = [] \<and>
                  sid0 \<in> set (removed v') \<and>
                  (draw_timeout_id_p0 c \<noteq> 0 \<longrightarrow> draw_timeout_id_p0 c \<in> set (removed v')) \<and>
                  pattern_p0 c \<noteq> 0 \<and> pattern_p0 c \<in> set (destroyed v')))"
proof (intro conjI impI)
  assume run: "main pf evs = Inr (Running d sid w)"
  note i = main_running [OF run]
  show "\<exists>w'. main pf (evs @ [e]) = Inr (Exited 0 w') \<and>
                  sources w' = [] \<and> patterns w' = [] \<and>
                  sid \<in> set (removed w') \<and>
                  (draw_timeout_id d \<noteq> 0 \<longrightarrow> draw_timeout_id d \<in> set (removed w')) \<and>
                  (pattern d \<noteq> 0 \<longrightarrow> pattern d \<in> set (destroyed w'))"
    by (intro exI [of _ "g_source_remove sid (snd (on_destroy d w))"])
       (simp add: main_press [OF run assms] exit_world [OF i])
next
  assume run: "main_p0 pf evs = Inr (Running c sid0 v)"
  note i = main_p0_running [OF run]
  have "pattern_p0 c \<noteq> 0" using i by (simp add: inv_p0_def)
  then show "\<exists>v'. main_p0 pf (evs @ [e]) = Inr (Exited 0 v') \<and>
                  sources v' = [] \<and> patterns v' = [] \<and>
                  sid0 \<in> set (removed v') \<and>
                  (draw_timeout_id_p0 c \<noteq> 0 \<longrightarrow> draw_timeout_id_p0 c \<in> set (removed v')) \<and>
                  pattern_p0 c \<noteq> 0 \<and> pattern_p0 c \<in> set (destroyed v')"
    by (intro exI [of _ "cairo_pattern_destroy (pattern_p0 c)
                           (g_source_remove sid0 (snd (on_destroy_p0 c v)))"])
       (simp add: main_p0_press [OF run assms] exit_world_p0 [OF i])
qed

text \<open>A key press after a paint at width 800 and a timer expiry, in both files.\<close>

theorem press_shuts_down_witness:
  "(\<exists>w'. main x11_platform [Draw 800, Timeout 2, Key_press] = Inr (Exited 0 w') \<and>
         sources w' = [] \<and> patterns w' = [] \<and> 1 \<in> set (removed w') \<and>
         2 \<in> set (removed w') \<and> 1 \<in> set (destroyed w')) \<and>
   (\<exists>v'. main_p0 x11_platform [Draw 800, Timeout 2, Key_press] = Inr (Exited 0 v') \<and>
         sources v' = [] \<and> patterns v' = [] \<and> 1 \<in> set (removed v') \<and>
         2 \<in> set (removed v') \<and> 1 \<in> set (destroyed v'))"
proof -
  have "\<exists>d w. main x11_platform [Draw 800, Timeout 2] = Inr (Running d 1 w) \<and>
          draw_timeout_id d = 2 \<and> pattern d = 1"
    by (simp add: run_defs)
  then obtain d w where run: "main x11_platform [Draw 800, Timeout 2] = Inr (Running d 1 w)"
    and l: "draw_timeout_id d = 2" "pattern d = 1" by blast
  have "\<exists>c v. main_p0 x11_platform [Draw 800, Timeout 2] = Inr (Running c 1 v) \<and>
          draw_timeout_id_p0 c = 2 \<and> pattern_p0 c = 1"
    by (simp add: run_defs)
  then obtain c v where run0: "main_p0 x11_platform [Draw 800, Timeout 2] = Inr (Running c 1 v)"
    and l0: "draw_timeout_id_p0 c = 2" "pattern_p0 c = 1" by blast
  have k: "Key_press = Key_press \<or> Key_press = Button_press" by simp
  note t = press_shuts_down [OF k, where pf = x11_platform and evs = "[Draw 800, Timeout 2]"]
  from t [where d = d and sid = 1 and w = w] run l
  have a: "\<exists>w'. main x11_platform [Draw 800, Timeout 2, Key_press] = Inr (Exited 0 w') \<and>
         sources w' = [] \<and> patterns w' = [] \<and> 1 \<in> set (removed w') \<and>
         2 \<in> set (removed w') \<and> 1 \<in> set (destroyed w')"
    by simp
  from t [where c = c and ?sid0.0 = 1 and v = v] run0 l0
  have b: "\<exists>v'. main_p0 x11_platform [Draw 800, Timeout 2, Key_press] = Inr (Exited 0 v') \<and>
         sources v' = [] \<and> patterns v' = [] \<and> 1 \<in> set (removed v') \<and>
         2 \<in> set (removed v') \<and> 1 \<in> set (destroyed v')"
    by simp
  from a b show ?thesis by (rule conjI)
qed

subsection \<open>The gradient\<close>

text \<open>
  C7. The gradient has exactly four colour stops, at the offsets 0, \<open>BAR_FRACTION\<close>,
  \<open>BAR_FRACTION\<close>, 1 in this (non-decreasing) order, with \<open>BAR_FRACTION = 3/8\<close>; the first
  two carry the colour of the bar (white in \<^verbatim>\<open>plasmacleaner.c\<close>, the tint of the colour
  constants in the second file) and the last two are black, so the two bands meet at
  \<open>BAR_FRACTION\<close>. In \<^verbatim>\<open>plasmacleaner.c\<close> this is the pattern the data points to once a
  width is stored, whatever that width is, and it spans that width; in the second file
  it is the pattern built in \<^verbatim>\<open>main\<close>, at every moment of the run.
\<close>

theorem gradient_stops:
  "BAR_FRACTION = 3 / 8 \<and>
   (main pf evs = Inr (Running d sid w) \<longrightarrow> last_width d \<noteq> 0 \<longrightarrow>
      (\<exists>g. map_of (patterns w) (pattern d) = Some g \<and>
           stops g = [(0, 1, 1, 1), (BAR_FRACTION, 1, 1, 1),
                      (BAR_FRACTION, 0, 0, 0), (1, 0, 0, 0)] \<and>
           sorted (map fst (stops g)) \<and>
           x0 g = 0 \<and> x1 g = real_of_int (sint (last_width d)) \<and>
           extend_mode g = EXTEND_REPEAT)) \<and>
   (main_p0 pf evs = Inr (Running c sid0 v) \<longrightarrow>
      (\<exists>g. map_of (patterns v) (pattern_p0 c) = Some g \<and>
           stops g = [(0, BAR_COLOUR_R, BAR_COLOUR_G, BAR_COLOUR_B),
                      (BAR_FRACTION, BAR_COLOUR_R, BAR_COLOUR_G, BAR_COLOUR_B),
                      (BAR_FRACTION, 0, 0, 0), (1, 0, 0, 0)] \<and>
           sorted (map fst (stops g)) \<and>
           x0 g = 0 \<and> x1 g = 1 \<and> extend_mode g = EXTEND_REPEAT))"
proof (intro conjI impI)
  show "BAR_FRACTION = 3 / 8" by (simp add: BAR_FRACTION_def)
next
  assume run: "main pf evs = Inr (Running d sid w)" and nz: "last_width d \<noteq> 0"
  from main_running [OF run] nz
  have "pattern d \<noteq> 0"
    and "patterns w =
       [(pattern d,
         \<lparr>x0 = 0, y0 = 0, x1 = real_of_int (sint (last_width d)), y1 = 0,
          stops = [(0, 1, 1, 1), (3 / 8, 1, 1, 1), (3 / 8, 0, 0, 0), (1, 0, 0, 0)],
          extend_mode = EXTEND_REPEAT\<rparr>)]"
    by (simp_all add: inv_def)
  then show "\<exists>g. map_of (patterns w) (pattern d) = Some g \<and>
           stops g = [(0, 1, 1, 1), (BAR_FRACTION, 1, 1, 1),
                      (BAR_FRACTION, 0, 0, 0), (1, 0, 0, 0)] \<and>
           sorted (map fst (stops g)) \<and>
           x0 g = 0 \<and> x1 g = real_of_int (sint (last_width d)) \<and>
           extend_mode g = EXTEND_REPEAT"
    by (simp add: BAR_FRACTION_def)
next
  assume run: "main_p0 pf evs = Inr (Running c sid0 v)"
  from main_p0_running [OF run]
  have "patterns v =
       [(pattern_p0 c,
         \<lparr>x0 = 0, y0 = 0, x1 = 1, y1 = 0,
          stops = [(0, 9 / 10, 9 / 10, 1), (3 / 8, 9 / 10, 9 / 10, 1),
                   (3 / 8, 0, 0, 0), (1, 0, 0, 0)],
          extend_mode = EXTEND_REPEAT\<rparr>)]"
    by (simp add: inv_p0_def)
  then show "\<exists>g. map_of (patterns v) (pattern_p0 c) = Some g \<and>
           stops g = [(0, BAR_COLOUR_R, BAR_COLOUR_G, BAR_COLOUR_B),
                      (BAR_FRACTION, BAR_COLOUR_R, BAR_COLOUR_G, BAR_COLOUR_B),
                      (BAR_FRACTION, 0, 0, 0), (1, 0, 0, 0)] \<and>
           sorted (map fst (stops g)) \<and>
           x0 g = 0 \<and> x1 g = 1 \<and> extend_mode g = EXTEND_REPEAT"
    by (simp add: BAR_FRACTION_def BAR_COLOUR_R_def BAR_COLOUR_G_def BAR_COLOUR_B_def)
qed

text \<open>After a paint at width 800 the pattern in use has the four stops, in both files.\<close>

theorem gradient_stops_witness:
  "(\<exists>d w g. main x11_platform [Draw 800] = Inr (Running d 1 w) \<and> last_width d = 800 \<and>
      map_of (patterns w) (pattern d) = Some g \<and>
      map fst (stops g) = [0, 3 / 8, 3 / 8, 1] \<and> x1 g = 800) \<and>
   (\<exists>c v g. main_p0 x11_platform [Draw 800] = Inr (Running c 1 v) \<and>
      map_of (patterns v) (pattern_p0 c) = Some g \<and>
      map fst (stops g) = [0, 3 / 8, 3 / 8, 1] \<and> x1 g = 1)"
proof -
  have "\<exists>d w. main x11_platform [Draw 800] = Inr (Running d 1 w) \<and> last_width d = 800"
    by (simp add: run_defs)
  then obtain d w where run: "main x11_platform [Draw 800] = Inr (Running d 1 w)"
    and l: "last_width d = 800" by blast
  have "\<exists>c v. main_p0 x11_platform [Draw 800] = Inr (Running c 1 v)"
    by (simp add: run_defs)
  then obtain c v where run0: "main_p0 x11_platform [Draw 800] = Inr (Running c 1 v)" by blast
  note t = gradient_stops [where pf = x11_platform and evs = "[Draw 800]"
      and d = d and sid = 1 and w = w and c = c and ?sid0.0 = 1 and v = v]
  from t run l
  have a: "\<exists>g. map_of (patterns w) (pattern d) = Some g \<and>
      map fst (stops g) = [0, 3 / 8, 3 / 8, 1] \<and> x1 g = 800"
    by (auto simp: BAR_FRACTION_def)
  from t run0
  have b: "\<exists>g. map_of (patterns v) (pattern_p0 c) = Some g \<and>
      map fst (stops g) = [0, 3 / 8, 3 / 8, 1] \<and> x1 g = 1"
    by (auto simp: BAR_FRACTION_def)
  from a obtain g where g: "map_of (patterns w) (pattern d) = Some g"
    "map fst (stops g) = [0, 3 / 8, 3 / 8, 1]" "x1 g = 800" by (elim exE conjE)
  from b obtain h where h: "map_of (patterns v) (pattern_p0 c) = Some h"
    "map fst (stops h) = [0, 3 / 8, 3 / 8, 1]" "x1 h = 1" by (elim exE conjE)
  show ?thesis
  proof (intro conjI)
    show "\<exists>d w g. main x11_platform [Draw 800] = Inr (Running d 1 w) \<and> last_width d = 800 \<and>
      map_of (patterns w) (pattern d) = Some g \<and>
      map fst (stops g) = [0, 3 / 8, 3 / 8, 1] \<and> x1 g = 800"
      using run l g by (intro exI [of _ d] exI [of _ w] exI [of _ g] conjI)
    show "\<exists>c v g. main_p0 x11_platform [Draw 800] = Inr (Running c 1 v) \<and>
      map_of (patterns v) (pattern_p0 c) = Some g \<and>
      map fst (stops g) = [0, 3 / 8, 3 / 8, 1] \<and> x1 g = 1"
      using run0 h by (intro exI [of _ c] exI [of _ v] exI [of _ h] conjI)
  qed
qed

subsection \<open>The suppression timer\<close>

lemma main_suppression_timeout:
  assumes "main pf evs = Inr (Running d sid w)"
  shows "main pf (evs @ [Timeout sid]) =
           (if xdisplay w = 0 then Inl Assertion_failed
            else Inr (Running d sid (XWarpPointer w)))"
proof -
  note i = main_running [OF assms]
  then have s: "map_of (sources w) sid =
      Some (SCREENSAVER_SUPPRESSION_PERIOD_MS, On_screensaver_suppression_timer)"
    and q: "\<not> main_quit w"
    by (simp_all add: inv_def)
  show ?thesis
    using q
    by (simp add: main_append [OF assms] dispatch_def s on_screensaver_suppression_timer_def
        XWarpPointer_def)
qed

lemma main_p0_suppression_timeout:
  assumes "main_p0 pf evs = Inr (Running d sid w)"
  shows "main_p0 pf (evs @ [Timeout sid]) =
           (if xdisplay w = 0 then Inl Assertion_failed
            else Inr (Running d sid (XWarpPointer w)))"
proof -
  note i = main_p0_running [OF assms]
  then have s: "map_of (sources w) sid =
      Some (SCREENSAVER_SUPPRESSION_PERIOD_MS, On_screensaver_suppression_timer)"
    and q: "\<not> main_quit w"
    by (simp_all add: inv_p0_def)
  show ?thesis
    using q
    by (simp add: main_p0_append [OF assms] dispatch_p0_def s
        on_screensaver_suppression_timer_def XWarpPointer_def)
qed

text \<open>
  C9, as the code has it. The suppression callback asserts that the default display has an
  Xlib connection. With one, it sends the zero-displacement warp and returns \<^verbatim>\<open>TRUE\<close>, so
  the process goes on unchanged but for the warp and the timer stays attached; without
  one, the assertion fails and the process ends there. There is no best-effort path.
\<close>

theorem suppression_timer_asserts_display:
  "on_screensaver_suppression_timer u =
     (if xdisplay u = 0 then Inl Assertion_failed
      else Inr (True, u\<lparr>warps := Suc (warps u)\<rparr>)) \<and>
   (main pf evs = Inr (Running d sid w) \<longrightarrow>
      main pf (evs @ [Timeout sid]) =
        (if xdisplay w = 0 then Inl Assertion_failed
         else Inr (Running d sid (w\<lparr>warps := Suc (warps w)\<rparr>)))) \<and>
   (main_p0 pf evs = Inr (Running c sid0 v) \<longrightarrow>
      main_p0 pf (evs @ [Timeout sid0]) =
        (if xdisplay v = 0 then Inl Assertion_failed
         else Inr (Running c sid0 (v\<lparr>warps := Suc (warps v)\<rparr>))))"
proof (intro conjI impI)
  show "on_screensaver_suppression_timer u =
     (if xdisplay u = 0 then Inl Assertion_failed
      else Inr (True, u\<lparr>warps := Suc (warps u)\<rparr>))"
    by (simp add: on_screensaver_suppression_timer_def XWarpPointer_def)
next
  assume "main pf evs = Inr (Running d sid w)"
  from main_suppression_timeout [OF this]
  show "main pf (evs @ [Timeout sid]) =
        (if xdisplay w = 0 then Inl Assertion_failed
         else Inr (Running d sid (w\<lparr>warps := Suc (warps w)\<rparr>)))"
    by (simp add: XWarpPointer_def)
next
  assume "main_p0 pf evs = Inr (Running c sid0 v)"
  from main_p0_suppression_timeout [OF this]
  show "main_p0 pf (evs @ [Timeout sid0]) =
        (if xdisplay v = 0 then Inl Assertion_failed
         else Inr (Running c sid0 (v\<lparr>warps := Suc (warps v)\<rparr>)))"
    by (simp add: XWarpPointer_def)
qed

text \<open>With a display, the first expiry after a paint leaves one warp behind and the process
  running.\<close>

theorem suppression_timer_asserts_display_witness:
  "(\<exists>d w. main x11_platform [Draw 800, Timeout 1] = Inr (Running d 1 w) \<and> warps w = 1) \<and>
   (\<exists>c v. main_p0 x11_platform [Draw 800, Timeout 1] = Inr (Running c 1 v) \<and> warps v = 1)"
proof -
  have "\<exists>d w. main x11_platform [Draw 800] = Inr (Running d 1 w) \<and> xdisplay w = 1 \<and>
          warps w = 0"
    by (simp add: run_defs)
  then obtain d w where run: "main x11_platform [Draw 800] = Inr (Running d 1 w)"
    and l: "xdisplay w = 1" "warps w = 0" by blast
  have "\<exists>c v. main_p0 x11_platform [Draw 800] = Inr (Running c 1 v) \<and> xdisplay v = 1 \<and>
          warps v = 0"
    by (simp add: run_defs)
  then obtain c v where run0: "main_p0 x11_platform [Draw 800] = Inr (Running c 1 v)"
    and l0: "xdisplay v = 1" "warps v = 0" by blast
  note t = suppression_timer_asserts_display [where pf = x11_platform and evs = "[Draw 800]"
      and d = d and sid = 1 and w = w and c = c and ?sid0.0 = 1 and v = v]
  from t run l have a: "main x11_platform [Draw 800, Timeout 1] =
      Inr (Running d 1 (w\<lparr>warps := Suc (warps w)\<rparr>))" by simp
  from t run0 l0 have b: "main_p0 x11_platform [Draw 800, Timeout 1] =
      Inr (Running c 1 (v\<lparr>warps := Suc (warps v)\<rparr>))" by simp
  show ?thesis
  proof (intro conjI)
    show "\<exists>d w. main x11_platform [Draw 800, Timeout 1] = Inr (Running d 1 w) \<and> warps w = 1"
      using a l by (intro exI [of _ d] exI [of _ "w\<lparr>warps := Suc (warps w)\<rparr>"]) simp
    show "\<exists>c v. main_p0 x11_platform [Draw 800, Timeout 1] = Inr (Running c 1 v) \<and> warps v = 1"
      using b l0 by (intro exI [of _ c] exI [of _ "v\<lparr>warps := Suc (warps v)\<rparr>"]) simp
  qed
qed

text \<open>C9 as the specification states it fails: without an X display the first expiry of
  the suppression timer ends the process with a failed assertion, in both files.\<close>

theorem suppression_failure_aborts:
  "main no_x11_platform [Timeout 1] = Inl Assertion_failed \<and>
   main_p0 no_x11_platform [Timeout 1] = Inl Assertion_failed"
  by (simp add: run_defs)

subsection \<open>The repaint interval\<close>

lemma double_to_guint_quotient:
  fixes a b :: nat
  assumes "0 < b" and "a < 2 ^ 32"
  shows "double_to_guint (real a / real b) = Inr (word_of_int (int (a div b)))"
proof -
  have fl: "\<lfloor>real a / real b\<rfloor> = int (a div b)" by (rule floor_divide_of_nat_eq)
  have ge: "0 \<le> real a / real b" by simp
  have "real a / real b \<le> real a"
    using assms(1) by (simp add: field_simps mult_le_cancel_left1)
  also have "\<dots> < 2 ^ 32" using assms(2) by (metis of_nat_less_iff of_nat_numeral of_nat_power)
  finally have lt: "real a / real b < 2 ^ 32" .
  have m: "- 1 < real a / real b" using ge by linarith
  show ?thesis by (simp only: double_to_guint_def m lt ge fl simp_thms if_True)
qed

lemma timeout_interval_pos:
  assumes "0 < sint width"
  shows "timeout_interval width = Inr (PERIOD_MS div width)"
proof -
  have W0: "width \<noteq> 0" by (rule sint_pos_nonzero [OF assms])
  have n: "0 < unat width" using W0 by (simp add: unat_gt_0)
  have s: "real_of_int (sint width) = real (unat width)"
    using sint_pos_unat [OF assms] by (metis of_int_of_nat_eq)
  have p: "unat PERIOD_MS < 2 ^ 32" by (simp add: PERIOD_MS_def)
  have "PERIOD_MS div width = word_of_nat (unat (PERIOD_MS div width))" by simp
  also have "\<dots> = word_of_nat (unat PERIOD_MS div unat width)" by (simp only: unat_div)
  also have "\<dots> = word_of_int (int (unat PERIOD_MS div unat width))" by simp
  finally have w: "word_of_int (int (unat PERIOD_MS div unat width)) = PERIOD_MS div width"
    by (rule sym)
  have "timeout_interval width = double_to_guint (real (unat PERIOD_MS) / real (unat width))"
    using W0 by (simp only: timeout_interval_def s if_False)
  also have "\<dots> = Inr (word_of_int (int (unat PERIOD_MS div unat width)))"
    by (rule double_to_guint_quotient [OF n p])
  finally show ?thesis by (simp only: w)
qed

lemma period_quotient_values:
  "PERIOD_MS div (800 :: 32 word) = 5"
  "PERIOD_MS < width \<Longrightarrow> PERIOD_MS div width = 0"
proof -
  show "PERIOD_MS div (800 :: 32 word) = 5" by (simp add: PERIOD_MS_def)
  show "PERIOD_MS div width = 0" if "PERIOD_MS < width"
    using that by (simp add: word_unat_eq_iff unat_div word_less_nat_alt)
qed

lemma on_draw_total:
  assumes "inv d sid w" and "0 < sint width"
  shows "\<exists>d' w'. on_draw width d w = Inr (True, d', w') \<and> inv d' sid w' \<and>
           last_width d' = width \<and> data_x d' = data_x d mod width \<and>
           map_of (sources w') (draw_timeout_id d') = Some (PERIOD_MS div width, On_draw_timer)"
proof -
  have W0: "width \<noteq> 0" by (rule sint_pos_nonzero [OF assms(2)])
  note iv = timeout_interval_pos [OF assms(2)]
  have "\<exists>d' w'. on_draw width d w = Inr (True, d', w') \<and> data_x d' = data_x d mod width"
  proof (cases "last_width d = width")
    case True
    then show ?thesis using W0 by (simp add: on_draw_same_width)
  next
    case False
    then show ?thesis by (simp add: on_draw_rebuild [OF assms(1) False iv])
  qed
  then obtain d' w' where r: "on_draw width d w = Inr (True, d', w')"
    and x: "data_x d' = data_x d mod width" by blast
  from on_draw_inv [OF assms(1) r] have i: "inv d' sid w'" and l: "last_width d' = width"
    by simp_all
  from i l W0 have "draw_timeout_id d' \<noteq> 0" by (simp add: inv_def)
  with i l iv
  have "map_of (sources w') (draw_timeout_id d') = Some (PERIOD_MS div width, On_draw_timer)"
    by (simp add: inv_def)
  with r i l x show ?thesis by blast
qed

lemma main_draw:
  assumes "main pf evs = Inr (Running d sid w)" and "0 < sint width"
  shows "\<exists>d' w'. main pf (evs @ [Draw width]) = Inr (Running d' sid w') \<and>
           on_draw width d w = Inr (True, d', w') \<and>
           last_width d' = width \<and> data_x d' = data_x d mod width \<and>
           map_of (sources w') (draw_timeout_id d') = Some (PERIOD_MS div width, On_draw_timer)"
proof -
  from on_draw_total [OF main_running [OF assms(1)] assms(2)]
  obtain d' w' where r: "on_draw width d w = Inr (True, d', w')" and i: "inv d' sid w'"
    and rest: "last_width d' = width" "data_x d' = data_x d mod width"
      "map_of (sources w') (draw_timeout_id d') = Some (PERIOD_MS div width, On_draw_timer)"
    by blast
  from i have "\<not> main_quit w'" by (simp add: inv_def)
  then have "main pf (evs @ [Draw width]) = Inr (Running d' sid w')"
    by (simp add: main_append [OF assms(1)] dispatch_def r)
  with r rest show ?thesis by blast
qed

lemma on_draw_p0_registers:
  assumes "inv_p0 d sid w" and "width \<noteq> 0"
    and "on_draw_p0 width d w = Inr (b, d', w')"
  shows "draw_timeout_id_p0 d' =
           (if draw_timeout_interval d \<noteq> PERIOD_MS div width then Suc (source_count w)
            else draw_timeout_id_p0 d)"
  using assms(2,3)
  by (auto simp: on_draw_p0_def Let_def free_draw_timeout_inv [OF assms(1)] g_timeout_add_def
      split: if_splits)

lemma main_p0_draw:
  assumes "main_p0 pf evs = Inr (Running d sid w)" and "width \<noteq> 0"
  shows "\<exists>d' w'. main_p0 pf (evs @ [Draw width]) = Inr (Running d' sid w') \<and>
           on_draw_p0 width d w = Inr (True, d', w') \<and> inv_p0 d' sid w' \<and>
           width_p0 d' = width"
proof -
  from on_draw_p0_inv [OF main_p0_running [OF assms(1)] assms(2)]
  obtain d' w' where r: "on_draw_p0 width d w = Inr (True, d', w')" and i: "inv_p0 d' sid w'"
    and l: "width_p0 d' = width" by blast
  have "main_p0 pf (evs @ [Draw width]) = Inr (Running d' sid w')"
    using inv_p0_not_quit [OF i] by (simp add: main_p0_append [OF assms(1)] dispatch_p0_def r)
  with r i l show ?thesis by blast
qed

text \<open>
  C3, as the code has it. For every new width \<open>W > 0\<close> the interval is the truncated
  quotient \<open>PERIOD_MS div W\<close> with \<open>PERIOD_MS = 4000\<close>: the conversion of
  \<^verbatim>\<open>PERIOD_MS / (double)width\<close> to \<^verbatim>\<open>guint\<close> in \<^verbatim>\<open>plasmacleaner.c\<close> gives it, and so does
  the integer division of the second file. After the paint, \<^verbatim>\<open>plasmacleaner.c\<close> has its
  repaint timer registered with this interval; the second file stores it, registers a
  new timer with it when it differs from the stored one, and any repaint timer attached
  has it. Nothing clamps it: it is 0 as soon as \<open>W > PERIOD_MS\<close>. For \<open>W = 800\<close> it is 5.
\<close>

theorem repaint_interval_truncated:
  assumes "0 < sint W"
  shows "timeout_interval W = Inr (PERIOD_MS div W) \<and>
         unat (PERIOD_MS div W) = 4000 div unat W \<and>
         (PERIOD_MS < W \<longrightarrow> PERIOD_MS div W = 0) \<and>
         (W = 800 \<longrightarrow> PERIOD_MS div W = 5) \<and>
         (main pf evs = Inr (Running d sid w) \<longrightarrow>
            (\<exists>d' w'. main pf (evs @ [Draw W]) = Inr (Running d' sid w') \<and>
               map_of (sources w') (draw_timeout_id d') =
                 Some (PERIOD_MS div W, On_draw_timer))) \<and>
         (main_p0 pf evs = Inr (Running c sid0 v) \<longrightarrow>
            (\<exists>c' v'. main_p0 pf (evs @ [Draw W]) = Inr (Running c' sid0 v') \<and>
               draw_timeout_interval c' = PERIOD_MS div W \<and>
               (draw_timeout_interval c \<noteq> PERIOD_MS div W \<longrightarrow>
                  draw_timeout_id_p0 c' = Suc (source_count v)) \<and>
               (draw_timeout_id_p0 c' \<noteq> 0 \<longrightarrow>
                  map_of (sources v') (draw_timeout_id_p0 c') =
                    Some (PERIOD_MS div W, On_draw_timer))))"
proof (intro conjI impI)
  have W0: "W \<noteq> 0" by (rule sint_pos_nonzero [OF assms])
  show "timeout_interval W = Inr (PERIOD_MS div W)" by (rule timeout_interval_pos [OF assms])
  show "unat (PERIOD_MS div W) = 4000 div unat W" by (simp add: unat_div PERIOD_MS_def)
  show "PERIOD_MS div W = 0" if "PERIOD_MS < W" using that by (rule period_quotient_values(2))
  show "PERIOD_MS div W = 5" if "W = 800" using that by (simp add: period_quotient_values(1))
  show "\<exists>d' w'. main pf (evs @ [Draw W]) = Inr (Running d' sid w') \<and>
               map_of (sources w') (draw_timeout_id d') =
                 Some (PERIOD_MS div W, On_draw_timer)"
    if "main pf evs = Inr (Running d sid w)"
    using main_draw [OF that assms] by blast
  show "\<exists>c' v'. main_p0 pf (evs @ [Draw W]) = Inr (Running c' sid0 v') \<and>
               draw_timeout_interval c' = PERIOD_MS div W \<and>
               (draw_timeout_interval c \<noteq> PERIOD_MS div W \<longrightarrow>
                  draw_timeout_id_p0 c' = Suc (source_count v)) \<and>
               (draw_timeout_id_p0 c' \<noteq> 0 \<longrightarrow>
                  map_of (sources v') (draw_timeout_id_p0 c') =
                    Some (PERIOD_MS div W, On_draw_timer))"
    if run: "main_p0 pf evs = Inr (Running c sid0 v)"
  proof -
    from main_p0_draw [OF run W0] obtain c' v'
      where m: "main_p0 pf (evs @ [Draw W]) = Inr (Running c' sid0 v')"
        and r: "on_draw_p0 W c v = Inr (True, c', v')" and i: "inv_p0 c' sid0 v'"
        and l: "width_p0 c' = W" by blast
    from i l W0 have a: "draw_timeout_interval c' = PERIOD_MS div W" by (simp add: inv_p0_def)
    from on_draw_p0_registers [OF main_p0_running [OF run] W0 r]
    have b: "draw_timeout_interval c \<noteq> PERIOD_MS div W \<longrightarrow>
                  draw_timeout_id_p0 c' = Suc (source_count v)" by simp
    from i a have e: "draw_timeout_id_p0 c' \<noteq> 0 \<longrightarrow>
                  map_of (sources v') (draw_timeout_id_p0 c') =
                    Some (PERIOD_MS div W, On_draw_timer)" by (simp add: inv_p0_def)
    from m a b e show ?thesis by blast
  qed
qed

text \<open>At width 800 both files register the repaint timer with 5 ms; at width 4001 the
  interval is 0.\<close>

theorem repaint_interval_truncated_witness:
  "0 < sint (4001 :: gint) \<and> PERIOD_MS < 4001 \<and> timeout_interval 4001 = Inr 0 \<and>
   0 < sint (800 :: gint) \<and> timeout_interval 800 = Inr 5 \<and>
   (\<exists>d' w'. main x11_platform [Draw 800] = Inr (Running d' 1 w') \<and>
      map_of (sources w') (draw_timeout_id d') = Some (5, On_draw_timer)) \<and>
   (\<exists>c' v'. main_p0 x11_platform [Draw 800] = Inr (Running c' 1 v') \<and>
      draw_timeout_id_p0 c' = 2 \<and>
      map_of (sources v') (draw_timeout_id_p0 c') = Some (5, On_draw_timer))"
proof -
  have h: "0 < sint (800 :: gint)" by simp
  have "\<exists>d w. main x11_platform [] = Inr (Running d 1 w)"
    by (simp add: run_defs)
  then obtain d w where run: "main x11_platform [] = Inr (Running d 1 w)" by blast
  have "\<exists>c v. main_p0 x11_platform [] = Inr (Running c 1 v) \<and> draw_timeout_interval c = 0 \<and>
          source_count v = 1"
    by (simp add: run_defs)
  then obtain c v where run0: "main_p0 x11_platform [] = Inr (Running c 1 v)"
    and l0: "draw_timeout_interval c = 0" "source_count v = 1" by blast
  note t = repaint_interval_truncated [OF h, where pf = x11_platform and evs = "[]"
      and d = d and sid = 1 and w = w and c = c and ?sid0.0 = 1 and v = v]
  have q: "PERIOD_MS div (800 :: gint) = 5" by (simp add: PERIOD_MS_def)
  from t have a: "timeout_interval 800 = Inr 5" by (simp add: q)
  from t run have b: "\<exists>d' w'. main x11_platform [Draw 800] = Inr (Running d' 1 w') \<and>
      map_of (sources w') (draw_timeout_id d') = Some (5, On_draw_timer)"
    by (simp add: q)
  from t have "main_p0 x11_platform [] = Inr (Running c 1 v) \<longrightarrow>
            (\<exists>c' v'. main_p0 x11_platform ([] @ [Draw 800]) = Inr (Running c' 1 v') \<and>
               draw_timeout_interval c' = PERIOD_MS div 800 \<and>
               (draw_timeout_interval c \<noteq> PERIOD_MS div 800 \<longrightarrow>
                  draw_timeout_id_p0 c' = Suc (source_count v)) \<and>
               (draw_timeout_id_p0 c' \<noteq> 0 \<longrightarrow>
                  map_of (sources v') (draw_timeout_id_p0 c') =
                    Some (PERIOD_MS div 800, On_draw_timer)))"
    by (elim conjE)
  with run0 obtain c' v' where m: "main_p0 x11_platform ([] @ [Draw 800]) = Inr (Running c' 1 v')"
    and i: "draw_timeout_interval c \<noteq> PERIOD_MS div 800 \<longrightarrow>
                  draw_timeout_id_p0 c' = Suc (source_count v)"
    and s: "draw_timeout_id_p0 c' \<noteq> 0 \<longrightarrow>
                  map_of (sources v') (draw_timeout_id_p0 c') =
                    Some (PERIOD_MS div 800, On_draw_timer)"
    by blast
  from i l0 have i2: "draw_timeout_id_p0 c' = 2" by (simp add: q)
  with s have "map_of (sources v') (draw_timeout_id_p0 c') = Some (5, On_draw_timer)"
    by (simp add: q)
  with m i2 have c: "\<exists>c' v'. main_p0 x11_platform [Draw 800] = Inr (Running c' 1 v') \<and>
      draw_timeout_id_p0 c' = 2 \<and>
      map_of (sources v') (draw_timeout_id_p0 c') = Some (5, On_draw_timer)"
    by (intro exI [of _ c'] exI [of _ v']) simp
  have h': "0 < sint (4001 :: gint)" and g: "PERIOD_MS < 4001"
    by (simp_all add: PERIOD_MS_def)
  from repaint_interval_truncated [OF h', where pf = x11_platform and evs = "[]"
      and d = d and sid = 1 and w = w and c = c and ?sid0.0 = 1 and v = v] g
  have z: "timeout_interval 4001 = Inr 0" by simp
  from h' g z h a b c show ?thesis by (intro conjI)
qed

text \<open>C3 as the specification states it fails: at width 4001 the repaint timer is
  registered with interval 0, not 1, in \<^verbatim>\<open>plasmacleaner.c\<close> from the first paint and in
  the second file when the width changes from 800.\<close>

theorem repaint_interval_not_clamped:
  "timeout_interval 4001 = Inr 0 \<and>
   sources (world_of (projr (main x11_platform [Draw 4001]))) =
     [(1, 1000, On_screensaver_suppression_timer), (2, 0, On_draw_timer)] \<and>
   sources (world_of (projr (main_p0 x11_platform [Draw 800, Draw 4001]))) =
     [(1, 1000, On_screensaver_suppression_timer), (3, 0, On_draw_timer)]"
  by (simp add: run_defs)

subsection \<open>A paint at the stored width\<close>

lemma main_draw_same:
  assumes "main pf evs = Inr (Running d sid w)" and "last_width d = W"
  shows "main pf (evs @ [Draw W]) =
           (if W = 0 then Inl Division_by_zero
            else Inr (Running (d\<lparr>data_x := data_x d mod W\<rparr>) sid
                   (w\<lparr>painted := painted w @
                        [\<lparr>translate_x = real (unat (data_x d mod W)), scale_x = 1,
                          source = pattern d\<rparr>]\<rparr>)))"
proof (cases "W = 0")
  case True
  then show ?thesis
    using assms(2) by (simp add: main_append [OF assms(1)] dispatch_def on_draw_def)
next
  case False
  have "\<not> main_quit w" using main_running [OF assms(1)] by (simp add: inv_def)
  then show ?thesis
    using False
    by (simp add: main_append [OF assms(1)] dispatch_def
        on_draw_same_width [OF assms(2) False] cairo_paint_def)
qed

lemma main_p0_draw_same:
  assumes "main_p0 pf evs = Inr (Running d sid w)" and "width_p0 d = W"
  shows "main_p0 pf (evs @ [Draw W]) =
           (if W = 0 then Inl Assertion_failed
            else Inr (Running d sid
                   (w\<lparr>painted := painted w @
                        [\<lparr>translate_x = real (unat (data_x_p0 d)),
                          scale_x = real_of_int (sint W), source = pattern_p0 d\<rparr>]\<rparr>)))"
proof (cases "W = 0")
  case True
  then show ?thesis
    by (simp add: main_p0_append [OF assms(1)] dispatch_p0_def on_draw_p0_def)
next
  case False
  note i = main_p0_running [OF assms(1)]
  from i assms(2) False have iv: "draw_timeout_interval d = PERIOD_MS div W"
    by (simp add: inv_p0_def)
  show ?thesis
    using False assms(2) iv inv_p0_not_quit [OF i]
    by (simp add: main_p0_append [OF assms(1)] dispatch_p0_def on_draw_p0_def cairo_paint_def)
qed

text \<open>
  C6. When a paint reports the width that is already stored, nothing is rebuilt: the
  pattern pointer and the timer id stay as they are, and the world has the same attached
  sources, the same live patterns, the same removals and destructions and the same
  counts of handed-out ids as before; the paint only adds a frame. (A width of 0 can be
  stored only before the first paint; a paint that reports 0 then ends the process, by
  the division in \<^verbatim>\<open>plasmacleaner.c\<close> and by the assertion in the second file, and
  nothing is rebuilt either.)
\<close>

theorem same_width_rebuilds_nothing:
  "(main pf evs = Inr (Running d sid w) \<longrightarrow> last_width d = W \<longrightarrow>
      (if W = 0 then main pf (evs @ [Draw W]) = Inl Division_by_zero
       else \<exists>d' w'. main pf (evs @ [Draw W]) = Inr (Running d' sid w') \<and>
              pattern d' = pattern d \<and> draw_timeout_id d' = draw_timeout_id d \<and>
              last_width d' = W \<and>
              sources w' = sources w \<and> source_count w' = source_count w \<and>
              removed w' = removed w \<and>
              patterns w' = patterns w \<and> pattern_count w' = pattern_count w \<and>
              destroyed w' = destroyed w)) \<and>
   (main_p0 pf evs = Inr (Running c sid0 v) \<longrightarrow> width_p0 c = W \<longrightarrow>
      (if W = 0 then main_p0 pf (evs @ [Draw W]) = Inl Assertion_failed
       else \<exists>v'. main_p0 pf (evs @ [Draw W]) = Inr (Running c sid0 v') \<and>
              sources v' = sources v \<and> source_count v' = source_count v \<and>
              removed v' = removed v \<and>
              patterns v' = patterns v \<and> pattern_count v' = pattern_count v \<and>
              destroyed v' = destroyed v))"
proof (intro conjI impI)
  assume "main pf evs = Inr (Running d sid w)" and "last_width d = W"
  from main_draw_same [OF this]
  show "if W = 0 then main pf (evs @ [Draw W]) = Inl Division_by_zero
       else \<exists>d' w'. main pf (evs @ [Draw W]) = Inr (Running d' sid w') \<and>
              pattern d' = pattern d \<and> draw_timeout_id d' = draw_timeout_id d \<and>
              last_width d' = W \<and>
              sources w' = sources w \<and> source_count w' = source_count w \<and>
              removed w' = removed w \<and>
              patterns w' = patterns w \<and> pattern_count w' = pattern_count w \<and>
              destroyed w' = destroyed w"
    using \<open>last_width d = W\<close> by (cases "W = 0") simp_all
next
  assume "main_p0 pf evs = Inr (Running c sid0 v)" and "width_p0 c = W"
  from main_p0_draw_same [OF this]
  show "if W = 0 then main_p0 pf (evs @ [Draw W]) = Inl Assertion_failed
       else \<exists>v'. main_p0 pf (evs @ [Draw W]) = Inr (Running c sid0 v') \<and>
              sources v' = sources v \<and> source_count v' = source_count v \<and>
              removed v' = removed v \<and>
              patterns v' = patterns v \<and> pattern_count v' = pattern_count v \<and>
              destroyed v' = destroyed v"
    by (cases "W = 0") simp_all
qed

text \<open>A second paint at width 800 leaves the timer with id 2 and the pattern with handle 1
  in place, in both files.\<close>

theorem same_width_rebuilds_nothing_witness:
  "(\<exists>d' w'. main x11_platform [Draw 800, Draw 800] = Inr (Running d' 1 w') \<and>
      pattern d' = 1 \<and> draw_timeout_id d' = 2 \<and> removed w' = [] \<and> destroyed w' = [] \<and>
      source_count w' = 2 \<and> pattern_count w' = 1) \<and>
   (\<exists>c v'. main_p0 x11_platform [Draw 800, Draw 800] = Inr (Running c 1 v') \<and>
      pattern_p0 c = 1 \<and> draw_timeout_id_p0 c = 2 \<and> removed v' = [] \<and> destroyed v' = [] \<and>
      source_count v' = 2 \<and> pattern_count v' = 1)"
proof -
  have "\<exists>d w. main x11_platform [Draw 800] = Inr (Running d 1 w) \<and> last_width d = 800 \<and>
      pattern d = 1 \<and> draw_timeout_id d = 2 \<and> removed w = [] \<and> destroyed w = [] \<and>
      source_count w = 2 \<and> pattern_count w = 1"
    by (simp add: run_defs)
  then obtain d w where run: "main x11_platform [Draw 800] = Inr (Running d 1 w)"
    and l: "last_width d = 800" "pattern d = 1" "draw_timeout_id d = 2" "removed w = []"
      "destroyed w = []" "source_count w = 2" "pattern_count w = 1"
    by blast
  have "\<exists>c v. main_p0 x11_platform [Draw 800] = Inr (Running c 1 v) \<and> width_p0 c = 800 \<and>
      pattern_p0 c = 1 \<and> draw_timeout_id_p0 c = 2 \<and> removed v = [] \<and> destroyed v = [] \<and>
      source_count v = 2 \<and> pattern_count v = 1"
    by (simp add: run_defs)
  then obtain c v where run0: "main_p0 x11_platform [Draw 800] = Inr (Running c 1 v)"
    and l0: "width_p0 c = 800" "pattern_p0 c = 1" "draw_timeout_id_p0 c = 2" "removed v = []"
      "destroyed v = []" "source_count v = 2" "pattern_count v = 1"
    by blast
  note t = same_width_rebuilds_nothing [where pf = x11_platform and evs = "[Draw 800]"
      and W = 800 and d = d and sid = 1 and w = w and c = c and ?sid0.0 = 1 and v = v]
  from t run l have a: "\<exists>d' w'. main x11_platform [Draw 800, Draw 800] = Inr (Running d' 1 w') \<and>
      pattern d' = 1 \<and> draw_timeout_id d' = 2 \<and> removed w' = [] \<and> destroyed w' = [] \<and>
      source_count w' = 2 \<and> pattern_count w' = 1"
    by auto
  from t run0 l0 have b: "\<exists>v'. main_p0 x11_platform [Draw 800, Draw 800] = Inr (Running c 1 v') \<and>
      removed v' = [] \<and> destroyed v' = [] \<and> source_count v' = 2 \<and> pattern_count v' = 1"
    by auto
  then obtain v' where b': "main_p0 x11_platform [Draw 800, Draw 800] = Inr (Running c 1 v')"
      "removed v' = []" "destroyed v' = []" "source_count v' = 2" "pattern_count v' = 1"
    by blast
  have b'': "\<exists>c v'. main_p0 x11_platform [Draw 800, Draw 800] = Inr (Running c 1 v') \<and>
      pattern_p0 c = 1 \<and> draw_timeout_id_p0 c = 2 \<and> removed v' = [] \<and> destroyed v' = [] \<and>
      source_count v' = 2 \<and> pattern_count v' = 1"
    using b' l0 by (intro exI [of _ c] exI [of _ v']) simp
  from a b'' show ?thesis by (rule conjI)
qed

subsection \<open>Rescaling on a width change\<close>

lemma on_draw_p0_offset:
  assumes "inv_p0 d sid w" and "width \<noteq> 0"
    and "on_draw_p0 width d w = Inr (b, d', w')"
  shows "data_x_p0 d' =
           (if width_p0 d = width \<or> width_p0 d = 0 then data_x_p0 d
            else data_x_p0 d * width div width_p0 d)"
  using assms(2,3)
  by (auto simp: on_draw_p0_def Let_def free_draw_timeout_inv [OF assms(1)] g_timeout_add_def
      split: if_splits)

lemma word_less_sint:
  fixes x W :: "32 word"
  assumes "0 < sint W"
  shows "uint x < sint W \<longleftrightarrow> x < W"
  by (simp add: sint_pos_uint [OF assms, symmetric] word_less_def)

text \<open>
  C2, as the code has it. On a paint that reports the width \<open>w2 > 0\<close> while \<open>w1 > 0\<close> is
  stored, the second file leaves the offset \<open>x\<close> (which is below \<open>w1\<close>) at a value below
  \<open>w2\<close>, and this value is \<open>\<lfloor>x * w2 / w1\<rfloor>\<close> whenever the product \<open>x * w2\<close> fits in 32
  bits, as it does for all widths up to 65535. \<^verbatim>\<open>plasmacleaner.c\<close> does not rescale: its
  new offset is \<open>x mod w2\<close>, which is below \<open>w2\<close> as well.
\<close>

theorem rescale_on_width_change:
  assumes "0 < sint w1" and "0 < sint w2"
  shows "(main_p0 pf evs = Inr (Running d sid w) \<longrightarrow> width_p0 d = w1 \<longrightarrow>
            (\<exists>d' w'. main_p0 pf (evs @ [Draw w2]) = Inr (Running d' sid w') \<and>
               width_p0 d' = w2 \<and>
               uint (data_x_p0 d) < sint w1 \<and> uint (data_x_p0 d') < sint w2 \<and>
               (unat (data_x_p0 d) * unat w2 < 2 ^ 32 \<longrightarrow>
                  unat (data_x_p0 d') = unat (data_x_p0 d) * unat w2 div unat w1))) \<and>
         (main pf evs = Inr (Running c sid0 v) \<longrightarrow> last_width c = w1 \<longrightarrow>
            (\<exists>c' v'. main pf (evs @ [Draw w2]) = Inr (Running c' sid0 v') \<and>
               last_width c' = w2 \<and>
               data_x c' = data_x c mod w2 \<and> uint (data_x c') < sint w2))"
proof (intro conjI impI)
  have W1: "w1 \<noteq> 0" and W2: "w2 \<noteq> 0"
    using assms by (auto dest: sint_pos_nonzero)
  {
    assume run: "main_p0 pf evs = Inr (Running d sid w)" and w: "width_p0 d = w1"
    note i = main_p0_running [OF run]
    from main_p0_draw [OF run W2] obtain d' w'
      where m: "main_p0 pf (evs @ [Draw w2]) = Inr (Running d' sid w')"
        and r: "on_draw_p0 w2 d w = Inr (True, d', w')" and i': "inv_p0 d' sid w'"
        and l: "width_p0 d' = w2" by blast
    from i w W1 have x: "data_x_p0 d < w1" by (simp add: inv_p0_def)
    from i' l W2 have x': "data_x_p0 d' < w2" by (simp add: inv_p0_def)
    note off = on_draw_p0_offset [OF i W2 r]
    have f: "unat (data_x_p0 d') = unat (data_x_p0 d) * unat w2 div unat w1"
      if small: "unat (data_x_p0 d) * unat w2 < 2 ^ 32"
    proof (cases "w1 = w2")
      case True
      have "0 < unat w2" using W2 by (simp add: unat_gt_0)
      then show ?thesis using off w True by simp
    next
      case False
      then show ?thesis using off w W1 rescale_exact [OF small, of w1] by simp
    qed
    from m l x x' f
    show "\<exists>d' w'. main_p0 pf (evs @ [Draw w2]) = Inr (Running d' sid w') \<and>
               width_p0 d' = w2 \<and>
               uint (data_x_p0 d) < sint w1 \<and> uint (data_x_p0 d') < sint w2 \<and>
               (unat (data_x_p0 d) * unat w2 < 2 ^ 32 \<longrightarrow>
                  unat (data_x_p0 d') = unat (data_x_p0 d) * unat w2 div unat w1)"
      by (simp add: word_less_sint [OF assms(1)] word_less_sint [OF assms(2)])
  }
  {
    assume run: "main pf evs = Inr (Running c sid0 v)" and "last_width c = w1"
    from main_draw [OF run assms(2)] obtain c' v'
      where m: "main pf (evs @ [Draw w2]) = Inr (Running c' sid0 v')"
        and l: "last_width c' = w2" "data_x c' = data_x c mod w2" by blast
    have "data_x c mod w2 < w2" by (rule word_mod_less [OF W2])
    with m l
    show "\<exists>c' v'. main pf (evs @ [Draw w2]) = Inr (Running c' sid0 v') \<and>
               last_width c' = w2 \<and>
               data_x c' = data_x c mod w2 \<and> uint (data_x c') < sint w2"
      by (simp add: word_less_sint [OF assms(2)])
  }
qed

text \<open>From width 8 to width 16 at offset 4: the second file moves the offset to 8,
  \<^verbatim>\<open>plasmacleaner.c\<close> leaves it at 4.\<close>

theorem rescale_on_width_change_witness:
  "0 < sint (8 :: gint) \<and> 0 < sint (16 :: gint) \<and>
   (\<exists>d' w'. main_p0 x11_platform
              [Draw 8, Timeout 2, Timeout 2, Timeout 2, Timeout 2, Draw 16] =
              Inr (Running d' 1 w') \<and> width_p0 d' = 16 \<and> unat (data_x_p0 d') = 8) \<and>
   (\<exists>c' v'. main x11_platform
              [Draw 8, Timeout 2, Timeout 2, Timeout 2, Timeout 2, Draw 16] =
              Inr (Running c' 1 v') \<and> last_width c' = 16 \<and> data_x c' = 4)"
proof -
  have h1: "0 < sint (8 :: gint)" and h2: "0 < sint (16 :: gint)" by simp_all
  have "\<exists>d w. main_p0 x11_platform [Draw 8, Timeout 2, Timeout 2, Timeout 2, Timeout 2] =
          Inr (Running d 1 w) \<and> width_p0 d = 8 \<and> data_x_p0 d = 4"
    by (simp add: run_defs)
  then obtain d w
    where run: "main_p0 x11_platform [Draw 8, Timeout 2, Timeout 2, Timeout 2, Timeout 2] =
          Inr (Running d 1 w)"
      and l: "width_p0 d = 8" "data_x_p0 d = 4" by blast
  have "\<exists>c v. main x11_platform [Draw 8, Timeout 2, Timeout 2, Timeout 2, Timeout 2] =
          Inr (Running c 1 v) \<and> last_width c = 8 \<and> data_x c = 4"
    by (simp add: run_defs)
  then obtain c v
    where run0: "main x11_platform [Draw 8, Timeout 2, Timeout 2, Timeout 2, Timeout 2] =
          Inr (Running c 1 v)"
      and l0: "last_width c = 8" "data_x c = 4" by blast
  note t = rescale_on_width_change [OF h1 h2, where pf = x11_platform
      and evs = "[Draw 8, Timeout 2, Timeout 2, Timeout 2, Timeout 2]"
      and d = d and sid = 1 and w = w and c = c and ?sid0.0 = 1 and v = v]
  from t run l have a: "\<exists>d' w'. main_p0 x11_platform
              [Draw 8, Timeout 2, Timeout 2, Timeout 2, Timeout 2, Draw 16] =
              Inr (Running d' 1 w') \<and> width_p0 d' = 16 \<and> unat (data_x_p0 d') = 8"
    by auto
  from t run0 l0 have b: "\<exists>c' v'. main x11_platform
              [Draw 8, Timeout 2, Timeout 2, Timeout 2, Timeout 2, Draw 16] =
              Inr (Running c' 1 v') \<and> last_width c' = 16 \<and> data_x c' = 4"
    by auto
  from h1 h2 a b show ?thesis by (intro conjI)
qed

text \<open>C2 as the specification states it fails in two ways. \<^verbatim>\<open>plasmacleaner.c\<close> does not
  rescale: a change from width 800 to 1600 at offset 400 leaves the offset at 400, not
  800. The second file multiplies in 32 bits: a change from width 70001 to 70000 at
  offset 70000 gives 8643, not \<open>\<lfloor>70000 * 70000 / 70001\<rfloor> = 69999\<close>.\<close>

theorem rescale_counterexample:
  "data_x (fst (snd (projr (on_draw 1600
      \<lparr>window = 1, pattern = 1, draw_timeout_id = 2, data_x = 400, last_width = 800\<rparr>
      (world_of (projr (main x11_platform [Draw 800]))))))) = 400 \<and>
   (400 * 1600 div 800 :: nat) = 800 \<and>
   data_x_p0 (fst (snd (projr (on_draw_p0 70000
      \<lparr>window_p0 = 1, pattern_p0 = 1, draw_timeout_id_p0 = 3, draw_timeout_interval = 0,
       data_x_p0 = 70000, width_p0 = 70001\<rparr>
      (world_of (projr (main_p0 x11_platform [Draw 800, Draw 70001]))))))) = 8643 \<and>
   (70000 * 70000 div 70001 :: nat) = 69999"
  by (simp add: run_defs)

subsection \<open>The offset and the width\<close>

lemma main_draw_timeout:
  assumes "main pf evs = Inr (Running d sid w)" and "draw_timeout_id d \<noteq> 0"
  shows "main pf (evs @ [Timeout (draw_timeout_id d)]) =
           Inr (Running (d\<lparr>data_x := data_x d + 1\<rparr>) sid
                  (w\<lparr>queued_draws := Suc (queued_draws w)\<rparr>))"
proof -
  note i = main_running [OF assms(1)]
  from i assms(2) obtain iv
    where s: "map_of (sources w) (draw_timeout_id d) = Some (iv, On_draw_timer)"
    by (simp add: inv_def)
  from i have q: "\<not> main_quit w" by (simp add: inv_def)
  show ?thesis
    using q
    by (simp add: main_append [OF assms(1)] dispatch_def s on_draw_timer_def
        gtk_widget_queue_draw_def)
qed

lemma main_p0_draw_timeout:
  assumes "main_p0 pf evs = Inr (Running d sid w)"
    and "map_of (sources w) i = Some (iv, On_draw_timer)"
  shows "width_p0 d \<noteq> 0 \<and>
         main_p0 pf (evs @ [Timeout i]) =
           Inr (Running (d\<lparr>data_x_p0 := (data_x_p0 d + 1) mod width_p0 d\<rparr>) sid
                  (w\<lparr>queued_draws := Suc (queued_draws w)\<rparr>))"
proof -
  note inv = main_p0_running [OF assms(1)]
  from dispatch_p0_timeout_draw [OF inv assms(2)]
  have id: "draw_timeout_id_p0 d \<noteq> 0" by simp
  with inv have W0: "width_p0 d \<noteq> 0" by (auto simp: inv_p0_def)
  from inv_p0_not_quit [OF inv] W0 show ?thesis
    by (simp add: main_p0_append [OF assms(1)] dispatch_p0_def assms(2) on_draw_timer_p0_def
        gtk_widget_queue_draw_def)
qed

text \<open>
  C4, as the code has it. In the second file the offset is below the stored width
  whenever the main loop waits for an event and that width is positive: the timer
  callback, the paint and the change of width all keep it so. In \<^verbatim>\<open>plasmacleaner.c\<close> the
  offset is below the width after every paint at a positive width, changed or not; the
  timer callback adds 1 and does not wrap, so between an expiry and the next paint the
  offset may have reached the width.
\<close>

theorem offset_below_width:
  "(main_p0 pf evs = Inr (Running d sid w) \<longrightarrow> 0 < sint (width_p0 d) \<longrightarrow>
      uint (data_x_p0 d) < sint (width_p0 d)) \<and>
   (main pf evs = Inr (Running c sid0 v) \<longrightarrow> 0 < sint W \<longrightarrow>
      (\<exists>c' v'. main pf (evs @ [Draw W]) = Inr (Running c' sid0 v') \<and>
         last_width c' = W \<and> uint (data_x c') < sint W)) \<and>
   (main pf evs = Inr (Running c sid0 v) \<longrightarrow> draw_timeout_id c \<noteq> 0 \<longrightarrow>
      main pf (evs @ [Timeout (draw_timeout_id c)]) =
        Inr (Running (c\<lparr>data_x := data_x c + 1\<rparr>) sid0
               (v\<lparr>queued_draws := Suc (queued_draws v)\<rparr>)))"
proof (intro conjI impI)
  assume run: "main_p0 pf evs = Inr (Running d sid w)" and pos: "0 < sint (width_p0 d)"
  from main_p0_running [OF run] sint_pos_nonzero [OF pos]
  have "data_x_p0 d < width_p0 d" by (simp add: inv_p0_def)
  then show "uint (data_x_p0 d) < sint (width_p0 d)" by (simp add: word_less_sint [OF pos])
next
  assume run: "main pf evs = Inr (Running c sid0 v)" and pos: "0 < sint W"
  from main_draw [OF run pos] obtain c' v'
    where m: "main pf (evs @ [Draw W]) = Inr (Running c' sid0 v')"
      and l: "last_width c' = W" "data_x c' = data_x c mod W" by blast
  have "data_x c mod W < W" by (rule word_mod_less [OF sint_pos_nonzero [OF pos]])
  with m l show "\<exists>c' v'. main pf (evs @ [Draw W]) = Inr (Running c' sid0 v') \<and>
         last_width c' = W \<and> uint (data_x c') < sint W"
    by (simp add: word_less_sint [OF pos])
next
  assume "main pf evs = Inr (Running c sid0 v)" and "draw_timeout_id c \<noteq> 0"
  then show "main pf (evs @ [Timeout (draw_timeout_id c)]) =
        Inr (Running (c\<lparr>data_x := data_x c + 1\<rparr>) sid0
               (v\<lparr>queued_draws := Suc (queued_draws v)\<rparr>))"
    by (rule main_draw_timeout)
qed

text \<open>At width 2: the second file has offset 0 after two expiries; \<^verbatim>\<open>plasmacleaner.c\<close> has
  offset 0 after the paint that follows them, and offset 1 right after the first.\<close>

theorem offset_below_width_witness:
  "(\<exists>d w. main_p0 x11_platform [Draw 2, Timeout 2, Timeout 2] = Inr (Running d 1 w) \<and>
      0 < sint (width_p0 d) \<and> uint (data_x_p0 d) < sint (width_p0 d)) \<and>
   0 < sint (2 :: gint) \<and>
   (\<exists>c' v'. main x11_platform [Draw 2, Timeout 2, Timeout 2, Draw 2] = Inr (Running c' 1 v') \<and>
      last_width c' = 2 \<and> uint (data_x c') < sint (2 :: gint)) \<and>
   (\<exists>c' v'. main x11_platform [Draw 2, Timeout 2, Timeout 2, Timeout 2] =
      Inr (Running c' 1 v') \<and> data_x c' = 3)"
proof -
  have h: "0 < sint (2 :: gint)" by simp
  have "\<exists>d w. main_p0 x11_platform [Draw 2, Timeout 2, Timeout 2] = Inr (Running d 1 w) \<and>
      width_p0 d = 2"
    by (simp add: run_defs)
  then obtain d w where run: "main_p0 x11_platform [Draw 2, Timeout 2, Timeout 2] =
      Inr (Running d 1 w)" and l: "width_p0 d = 2" by blast
  have "\<exists>c v. main x11_platform [Draw 2, Timeout 2, Timeout 2] = Inr (Running c 1 v) \<and>
      draw_timeout_id c = 2 \<and> data_x c = 2"
    by (simp add: run_defs)
  then obtain c v where run0: "main x11_platform [Draw 2, Timeout 2, Timeout 2] =
      Inr (Running c 1 v)" and l0: "draw_timeout_id c = 2" "data_x c = 2" by blast
  note t = offset_below_width [where pf = x11_platform
      and evs = "[Draw 2, Timeout 2, Timeout 2]" and W = 2
      and d = d and sid = 1 and w = w and c = c and ?sid0.0 = 1 and v = v]
  from t run l have "uint (data_x_p0 d) < sint (width_p0 d)" by simp
  with run l have a: "\<exists>d w. main_p0 x11_platform [Draw 2, Timeout 2, Timeout 2] =
      Inr (Running d 1 w) \<and> 0 < sint (width_p0 d) \<and> uint (data_x_p0 d) < sint (width_p0 d)"
    by (intro exI [of _ d] exI [of _ w]) simp
  from t run0 h have b: "\<exists>c' v'. main x11_platform [Draw 2, Timeout 2, Timeout 2, Draw 2] =
      Inr (Running c' 1 v') \<and> last_width c' = 2 \<and> uint (data_x c') < sint (2 :: gint)"
    by auto
  from t run0 l0 have "main x11_platform [Draw 2, Timeout 2, Timeout 2, Timeout 2] =
      Inr (Running (c\<lparr>data_x := data_x c + 1\<rparr>) 1 (v\<lparr>queued_draws := Suc (queued_draws v)\<rparr>))"
    by simp
  then have e: "\<exists>c' v'. main x11_platform [Draw 2, Timeout 2, Timeout 2, Timeout 2] =
      Inr (Running c' 1 v') \<and> data_x c' = 3"
    using l0
    by (intro exI [of _ "c\<lparr>data_x := data_x c + 1\<rparr>"]
        exI [of _ "v\<lparr>queued_draws := Suc (queued_draws v)\<rparr>"]) simp
  from a h b e show ?thesis by (intro conjI)
qed

text \<open>C4 as the specification states it fails in \<^verbatim>\<open>plasmacleaner.c\<close>: at width 2, after
  a paint, an expiry, the paint it asked for and one more expiry, the offset is 2 while
  the stored width is 2.\<close>

theorem offset_reaches_width:
  "map_option data_x (data_of (projr (main x11_platform
      [Draw 2, Timeout 2, Draw 2, Timeout 2]))) = Some 2 \<and>
   map_option last_width (data_of (projr (main x11_platform
      [Draw 2, Timeout 2, Draw 2, Timeout 2]))) = Some 2"
  by (simp add: run_defs)

subsection \<open>The timer callback and the assertion\<close>

text \<open>
  C5, as the code has it. In the second file the timer callback asserts that the stored
  width is not 0 and then sets the offset to \<open>(offset + 1) mod width\<close>; whenever a repaint
  timer is attached, a width has been stored, so the assertion holds, the divisor is not
  0 and the expiry leaves the process running. In \<^verbatim>\<open>plasmacleaner.c\<close> the callback only
  adds 1 to the offset: it has no assertion and no modulo and cannot fail. There the
  modulo is taken by the paint handler, by the width the paint reports, and a paint that
  reports a positive width never fails.
\<close>

theorem timer_callback_safety:
  "on_draw_timer_p0 d w =
     (if width_p0 d = 0 then Inl Assertion_failed
      else Inr (True, d\<lparr>data_x_p0 := (data_x_p0 d + 1) mod width_p0 d\<rparr>,
                w\<lparr>queued_draws := Suc (queued_draws w)\<rparr>)) \<and>
   (main_p0 pf evs = Inr (Running d sid w) \<longrightarrow>
      map_of (sources w) i = Some (iv, On_draw_timer) \<longrightarrow>
      width_p0 d \<noteq> 0 \<and>
      main_p0 pf (evs @ [Timeout i]) =
        Inr (Running (d\<lparr>data_x_p0 := (data_x_p0 d + 1) mod width_p0 d\<rparr>) sid
               (w\<lparr>queued_draws := Suc (queued_draws w)\<rparr>))) \<and>
   on_draw_timer c v =
     (True, c\<lparr>data_x := data_x c + 1\<rparr>, v\<lparr>queued_draws := Suc (queued_draws v)\<rparr>) \<and>
   (main pf evs = Inr (Running c sid0 v) \<longrightarrow> 0 < sint W \<longrightarrow>
      (\<exists>c' v'. main pf (evs @ [Draw W]) = Inr (Running c' sid0 v') \<and>
         data_x c' = data_x c mod W))"
proof (intro conjI impI)
  show "on_draw_timer_p0 d w =
     (if width_p0 d = 0 then Inl Assertion_failed
      else Inr (True, d\<lparr>data_x_p0 := (data_x_p0 d + 1) mod width_p0 d\<rparr>,
                w\<lparr>queued_draws := Suc (queued_draws w)\<rparr>))"
    by (simp add: on_draw_timer_p0_def gtk_widget_queue_draw_def)
  show "on_draw_timer c v =
     (True, c\<lparr>data_x := data_x c + 1\<rparr>, v\<lparr>queued_draws := Suc (queued_draws v)\<rparr>)"
    by (simp add: on_draw_timer_def gtk_widget_queue_draw_def)
next
  assume run: "main_p0 pf evs = Inr (Running d sid w)"
    and s: "map_of (sources w) i = Some (iv, On_draw_timer)"
  from main_p0_draw_timeout [OF run s]
  show "width_p0 d \<noteq> 0"
    and "main_p0 pf (evs @ [Timeout i]) =
        Inr (Running (d\<lparr>data_x_p0 := (data_x_p0 d + 1) mod width_p0 d\<rparr>) sid
               (w\<lparr>queued_draws := Suc (queued_draws w)\<rparr>))"
    by simp_all
next
  assume run: "main pf evs = Inr (Running c sid0 v)" and pos: "0 < sint W"
  from main_draw [OF run pos]
  show "\<exists>c' v'. main pf (evs @ [Draw W]) = Inr (Running c' sid0 v') \<and>
         data_x c' = data_x c mod W"
    by blast
qed

text \<open>At width 800: an expiry in the second file moves the offset from 0 to 1; in
  \<^verbatim>\<open>plasmacleaner.c\<close> the paint after an expiry stores \<open>1 mod 800\<close>.\<close>

theorem timer_callback_safety_witness:
  "(\<exists>d' w'. main_p0 x11_platform [Draw 800, Timeout 2] = Inr (Running d' 1 w') \<and>
      width_p0 d' = 800 \<and> data_x_p0 d' = 1) \<and>
   0 < sint (800 :: gint) \<and>
   (\<exists>c' v'. main x11_platform [Draw 800, Timeout 2, Draw 800] = Inr (Running c' 1 v') \<and>
      data_x c' = 1)"
proof -
  have h: "0 < sint (800 :: gint)" by simp
  have "\<exists>d w. main_p0 x11_platform [Draw 800] = Inr (Running d 1 w) \<and>
      width_p0 d = 800 \<and> data_x_p0 d = 0 \<and> map_of (sources w) 2 = Some (5, On_draw_timer)"
    by (simp add: run_defs)
  then obtain d w where run: "main_p0 x11_platform [Draw 800] = Inr (Running d 1 w)"
    and l: "width_p0 d = 800" "data_x_p0 d = 0"
      "map_of (sources w) 2 = Some (5, On_draw_timer)" by blast
  have "\<exists>c v. main x11_platform [Draw 800, Timeout 2] = Inr (Running c 1 v) \<and> data_x c = 1"
    by (simp add: run_defs)
  then obtain c v where run0: "main x11_platform [Draw 800, Timeout 2] = Inr (Running c 1 v)"
    and l0: "data_x c = 1" by blast
  from timer_callback_safety [where pf = x11_platform and evs = "[Draw 800]"
      and d = d and sid = 1 and w = w and i = 2 and iv = 5] run l
  have "main_p0 x11_platform [Draw 800, Timeout 2] =
        Inr (Running (d\<lparr>data_x_p0 := (data_x_p0 d + 1) mod width_p0 d\<rparr>) 1
               (w\<lparr>queued_draws := Suc (queued_draws w)\<rparr>))"
    by simp
  then have a: "\<exists>d' w'. main_p0 x11_platform [Draw 800, Timeout 2] = Inr (Running d' 1 w') \<and>
      width_p0 d' = 800 \<and> data_x_p0 d' = 1"
    using l
    by (intro exI [of _ "d\<lparr>data_x_p0 := (data_x_p0 d + 1) mod width_p0 d\<rparr>"]
        exI [of _ "w\<lparr>queued_draws := Suc (queued_draws w)\<rparr>"]) simp
  from timer_callback_safety [where pf = x11_platform and evs = "[Draw 800, Timeout 2]"
      and c = c and ?sid0.0 = 1 and v = v and W = 800] run0 h
  have "\<exists>c' v'. main x11_platform [Draw 800, Timeout 2, Draw 800] = Inr (Running c' 1 v') \<and>
         data_x c' = data_x c mod 800"
    by simp
  then have b: "\<exists>c' v'. main x11_platform [Draw 800, Timeout 2, Draw 800] =
      Inr (Running c' 1 v') \<and> data_x c' = 1"
    by (simp add: l0)
  from a h b show ?thesis by (intro conjI)
qed

text \<open>C5 as the specification states it fails in \<^verbatim>\<open>plasmacleaner.c\<close>: with width 800
  stored and offset 799 the callback leaves offset 800, unwrapped; and before any width
  is stored (width 0) it returns \<^verbatim>\<open>TRUE\<close> with offset 1 instead of failing.\<close>

theorem timer_callback_does_not_wrap:
  "data_x (fst (snd (on_draw_timer
      \<lparr>window = 1, pattern = 1, draw_timeout_id = 2, data_x = 799, last_width = 800\<rparr>
      (world_of (projr (main x11_platform [Draw 800])))))) = 800 \<and>
   fst (on_draw_timer
      \<lparr>window = 1, pattern = 0, draw_timeout_id = 0, data_x = 0, last_width = 0\<rparr>
      (world_of (projr (main x11_platform [])))) = True \<and>
   data_x (fst (snd (on_draw_timer
      \<lparr>window = 1, pattern = 0, draw_timeout_id = 0, data_x = 0, last_width = 0\<rparr>
      (world_of (projr (main x11_platform [])))))) = 1"
  by (simp add: run_defs)

end
